theory Spec2Isabelle
  imports
    Main
    "HOL-Library.AList"
    "HOL-Library.Char_ord"
    "HOL-Library.List_Lexorder"
    "HOL-Library.Product_Lexorder"
begin

text \<open>
  The Books REST API: five Express route handlers over one collection of a document
  store. The handlers are modelled as functions from the environment of the request,
  the store and the request to the store they leave and the response they send; the
  store calls they make are modelled beside them.
\<close>

section \<open>JSON values and objects\<close>

text \<open>
  Request bodies, stored documents and response bodies are JSON. An object is an
  association list from attribute names to values, in insertion order; a JavaScript
  object never holds an attribute twice, which \<open>wf_obj\<close> states. JSON numbers are
  restricted to integers: no handler computes with them. Attribute names that are
  array indices, which JavaScript lists before the others, play no role.
\<close>

datatype json =
    JNull
  | JBool bool
  | JNum int
  | JStr string
  | JArr "json list"
  | JObj "(string \<times> json) list"

type_synonym obj = "(string \<times> json) list"

definition wf_obj :: "obj \<Rightarrow> bool" where
  "wf_obj d = distinct (map fst d)"

text \<open>Reading an attribute: \<open>d.k\<close>, which is \<open>undefined\<close> (here \<open>None\<close>) when absent.\<close>

definition field :: "obj \<Rightarrow> string \<Rightarrow> json option" where
  "field d k = map_of d k"

text \<open>
  The object literal \<open>{ ...base, ...extra }\<close>: the attributes of \<open>extra\<close> are set one
  after the other on a copy of \<open>base\<close>. Setting an attribute that is already there
  replaces its value in place, a new attribute goes to the end.
\<close>

definition spread :: "obj \<Rightarrow> obj \<Rightarrow> obj" where
  "spread base extra = foldl (\<lambda>acc (k, v). AList.update k v acc) base extra"

section \<open>The document store\<close>

text \<open>
  The database client (\<open>db\<close> of \<open>db/firebase/admin.ts\<close>, the Firestore client of the
  firebase-admin package) is an external service. Only the collection \<open>Books\<close> is
  used: a store state is the content of that collection, documents keyed by their
  identifier.
\<close>

type_synonym store = "(string \<times> obj) list"

datatype store_error = Unavailable | AlreadyExists | NotFound | InvalidArgument

datatype store_call = CallGet | CallQuery | CallAdd | CallUpdate | CallDelete

text \<open>
  What the outside world decides for one request: for each kind of store call whether
  it fails and how, and the identifier the store generates if a document is added.
\<close>

record env =
  fault :: "store_call \<Rightarrow> store_error option"
  auto_id :: string

text \<open>The document snapshot: \<open>doc.id\<close>, \<open>doc.data()\<close> and \<open>doc.exists\<close>.\<close>

record snapshot =
  snap_id :: string
  snap_data :: "obj option"

definition snap_exists :: "snapshot \<Rightarrow> bool" where
  "snap_exists s = (snap_data s \<noteq> None)"

text \<open>
  \<open>doc.data()\<close> as an object literal spreads it: the attributes of the document, and
  none for a snapshot that does not exist (\<open>data()\<close> is \<open>undefined\<close> there, and
  spreading \<open>undefined\<close> adds nothing).
\<close>

definition data :: "snapshot \<Rightarrow> obj" where
  "data s = (case snap_data s of None \<Rightarrow> [] | Some d \<Rightarrow> d)"

text \<open>
  Modelled from the spec: the store call \<open>get(collection, id) -> Document|NotFound\<close>
  of the external database client, \<open>db.collection('Books').doc(id).get()\<close>. It reads
  and never writes; an absent document is a snapshot that does not exist.
\<close>

definition doc_get :: "env \<Rightarrow> store \<Rightarrow> string \<Rightarrow> store_error + snapshot" where
  "doc_get e db i =
     (case fault e CallGet of
        Some err \<Rightarrow> Inl err
      | None \<Rightarrow> Inr \<lparr>snap_id = i, snap_data = map_of db i\<rparr>)"

text \<open>
  Modelled from the spec: the store call \<open>add(collection, data) -> id\<close> of the
  external database client, \<open>db.collection('Books').add(data)\<close>. The store generates
  the identifier and creates the document with the data as given; creating under
  an identifier already in use fails and writes nothing.
\<close>

definition doc_add :: "env \<Rightarrow> store \<Rightarrow> obj \<Rightarrow> store_error + (string \<times> store)" where
  "doc_add e db d =
     (case fault e CallAdd of
        Some err \<Rightarrow> Inl err
      | None \<Rightarrow>
          (case map_of db (auto_id e) of
             Some _ \<Rightarrow> Inl AlreadyExists
           | None \<Rightarrow> Inr (auto_id e, db @ [(auto_id e, d)])))"

text \<open>
  Modelled from the spec: the store call \<open>update(collection, id, partialData) -> void\<close>
  of the external database client, \<open>db.collection('Books').doc(id).update(data)\<close>:
  a partial overwrite. Each attribute of the data replaces or adds that attribute of
  the stored document, the others stay; updating an absent document fails. Attribute
  names are taken without dots (the store reads a dotted name as a path into a nested
  attribute).
\<close>

definition doc_update :: "env \<Rightarrow> store \<Rightarrow> string \<Rightarrow> obj \<Rightarrow> store_error + store" where
  "doc_update e db i d =
     (case fault e CallUpdate of
        Some err \<Rightarrow> Inl err
      | None \<Rightarrow>
          (case map_of db i of
             None \<Rightarrow> Inl NotFound
           | Some old \<Rightarrow> Inr (AList.update i (spread old d) db)))"

text \<open>
  Modelled from the spec: the store call \<open>delete(collection, id) -> void\<close> of the
  external database client, \<open>db.collection('Books').doc(id).delete()\<close>.
\<close>

definition doc_delete :: "env \<Rightarrow> store \<Rightarrow> string \<Rightarrow> store_error + store" where
  "doc_delete e db i =
     (case fault e CallDelete of
        Some err \<Rightarrow> Inl err
      | None \<Rightarrow> Inr (AList.delete i db))"

text \<open>
  The order of the store on values: by kind (null, booleans, numbers, strings, arrays,
  objects), then within the kind; strings byte by byte, arrays element by element,
  objects attribute by attribute in the order of the attribute names. Every value is
  sent to a list of integers whose lexicographic order is that order.
\<close>

definition str_key :: "string \<Rightarrow> int list" where
  "str_key s = map (\<lambda>c. int (of_char c) + 1) s @ [0]"

definition obj_key :: "(string \<times> int list) list \<Rightarrow> int list" where
  "obj_key es = concat (map (\<lambda>(k, e). str_key k @ e) (sort_key fst es)) @ [- 1]"

fun value_key :: "json \<Rightarrow> int list" where
  "value_key JNull = [0]"
| "value_key (JBool b) = [1, if b then 1 else 0]"
| "value_key (JNum n) = [2, n]"
| "value_key (JStr s) = 3 # str_key s"
| "value_key (JArr xs) = 4 # concat (map value_key xs) @ [- 1]"
| "value_key (JObj kvs) = 5 # obj_key (map (\<lambda>kv. (fst kv, value_key (snd kv))) kvs)"

text \<open>
  Modelled from the spec: the store call
  \<open>query(collection, orderField, limit) -> Sequence<Document>\<close> of the external
  database client, \<open>db.collection('Books').orderBy(f).limit(n).get()\<close>. Only the
  documents that have the order field are returned, in ascending order of that field
  and, where two are equal, of the document identifier; at most \<open>n\<close> of them.
\<close>

definition with_field :: "string \<Rightarrow> store \<Rightarrow> (int list \<times> string \<times> obj) list" where
  "with_field f db =
     List.map_filter
       (\<lambda>(i, d). case field d f of None \<Rightarrow> None | Some v \<Rightarrow> Some (value_key v, i, d)) db"

definition order_by_limit :: "string \<Rightarrow> nat \<Rightarrow> store \<Rightarrow> (string \<times> obj) list" where
  "order_by_limit f n db =
     map snd (take n (sort_key (\<lambda>(k, i, d). (k, i)) (with_field f db)))"

definition query_get :: "env \<Rightarrow> store \<Rightarrow> string \<Rightarrow> nat \<Rightarrow> store_error + (string \<times> obj) list" where
  "query_get e db f n =
     (case fault e CallQuery of
        Some err \<Rightarrow> Inl err
      | None \<Rightarrow> Inr (order_by_limit f n db))"

section \<open>The route handlers\<close>

text \<open>
  What a handler reads of the request: \<open>req.params.id\<close>, \<open>req.body\<close> (parsed by
  \<open>express.json()\<close>) and \<open>req.query\<close>.
\<close>

record request =
  params_id :: string
  body :: obj
  query :: "(string \<times> string) list"

record response =
  status :: nat
  payload :: json

text \<open>
  A handler ends with the store it leaves behind and either the response it sent
  (\<open>Inr\<close>) or the store failure it did not catch (\<open>Inl\<close>), which leaves the handler
  as a rejected promise. \<open>res.json(x)\<close> without \<open>res.status\<close> sends 200.
\<close>

type_synonym outcome = "store \<times> (store_error + response)"

definition message :: "string \<Rightarrow> json" where
  "message m = JObj [(''message'', JStr m)]"

text \<open>\<open>{ id: doc.id, ...doc.data() }\<close>\<close>

definition book_of :: "string \<Rightarrow> obj \<Rightarrow> obj" where
  "book_of i d = spread [(''id'', JStr i)] d"

text \<open>\<open>router.get('/', ...)\<close>: the request is not read.\<close>

definition router_get_root :: "env \<Rightarrow> store \<Rightarrow> request \<Rightarrow> outcome" where
  "router_get_root e db req =
     (case query_get e db ''name'' 20 of
        Inl err \<Rightarrow> (db, Inl err)
      | Inr snapshot \<Rightarrow>
          (db, Inr \<lparr>status = 200,
                    payload = JArr (map (\<lambda>(i, d). JObj (book_of i d)) snapshot)\<rparr>))"

text \<open>\<open>router.get('/:id', ...)\<close>\<close>

definition router_get_id :: "env \<Rightarrow> store \<Rightarrow> request \<Rightarrow> outcome" where
  "router_get_id e db req =
     (let i = params_id req in
      case doc_get e db i of
        Inl err \<Rightarrow> (db, Inl err)
      | Inr doc \<Rightarrow>
          if \<not> snap_exists doc
          then (db, Inr \<lparr>status = 404, payload = message ''Book not found''\<rparr>)
          else (db, Inr \<lparr>status = 200, payload = JObj (book_of (snap_id doc) (data doc))\<rparr>))"

text \<open>\<open>router.post('/', ...)\<close>\<close>

definition router_post_root :: "env \<Rightarrow> store \<Rightarrow> request \<Rightarrow> outcome" where
  "router_post_root e db req =
     (let newBook = body req in
      case doc_add e db newBook of
        Inl err \<Rightarrow> (db, Inl err)
      | Inr (docRef_id, db') \<Rightarrow>
          (db', Inr \<lparr>status = 201, payload = JObj (spread [(''id'', JStr docRef_id)] newBook)\<rparr>))"

text \<open>
  \<open>router.put('/:id', ...)\<close>: the whole body is inside \<open>try\<close>, and the \<open>catch\<close>
  answers 500 (after writing the error to the console, which is left out here).
\<close>

definition router_put_id :: "env \<Rightarrow> store \<Rightarrow> request \<Rightarrow> outcome" where
  "router_put_id e db req =
     (let i = params_id req; newData = body req in
      case doc_get e db i of
        Inl err \<Rightarrow> (db, Inr \<lparr>status = 500, payload = message ''Internal Server Error''\<rparr>)
      | Inr doc \<Rightarrow>
          if \<not> snap_exists doc
          then (db, Inr \<lparr>status = 404, payload = message ''Book not found''\<rparr>)
          else
            (case doc_update e db i newData of
               Inl err \<Rightarrow> (db, Inr \<lparr>status = 500, payload = message ''Internal Server Error''\<rparr>)
             | Inr db' \<Rightarrow>
                 (db', Inr \<lparr>status = 200, payload = message ''Book updated successfully''\<rparr>)))"

text \<open>\<open>router.delete('/:id', ...)\<close>, with the same \<open>try\<close> and \<open>catch\<close>.\<close>

definition router_delete_id :: "env \<Rightarrow> store \<Rightarrow> request \<Rightarrow> outcome" where
  "router_delete_id e db req =
     (let i = params_id req in
      case doc_get e db i of
        Inl err \<Rightarrow> (db, Inr \<lparr>status = 500, payload = message ''Internal Server Error''\<rparr>)
      | Inr doc \<Rightarrow>
          if \<not> snap_exists doc
          then (db, Inr \<lparr>status = 404, payload = message ''Book not found''\<rparr>)
          else
            (case doc_delete e db i of
               Inl err \<Rightarrow> (db, Inr \<lparr>status = 500, payload = message ''Internal Server Error''\<rparr>)
             | Inr db' \<Rightarrow>
                 (db', Inr \<lparr>status = 200, payload = message ''Book deleted successfully''\<rparr>)))"

section \<open>Routing\<close>

text \<open>
  \<open>decodeURIComponent\<close>, with which Express decodes a path parameter. An escape
  \<open>%XY\<close> stands for the byte with the hexadecimal digits \<open>XY\<close>; an escaped byte
  above 127 begins a UTF-8 sequence whose further bytes are escaped as well, and the
  sequence encodes a code point in its shortest form, no surrogate and none above
  \<open>10FFFF\<close>. Anything else raises \<open>URIError\<close>, here \<open>None\<close>. Strings are
  sequences of bytes, a character outside ASCII being its UTF-8 bytes.
\<close>

definition hex_digit :: "char \<Rightarrow> nat option" where
  "hex_digit c =
     (let n = of_char c in
      if 48 \<le> n \<and> n \<le> 57 then Some (n - 48)
      else if 65 \<le> n \<and> n \<le> 70 then Some (n - 55)
      else if 97 \<le> n \<and> n \<le> 102 then Some (n - 87)
      else None)"

text \<open>The bytes of a string, each with whether it was written as an escape.\<close>

fun unescape :: "string \<Rightarrow> (bool \<times> nat) list option" where
  "unescape [] = Some []"
| "unescape (c # cs) =
     (if c = CHR ''%'' then
        (case cs of
           h1 # h2 # rest \<Rightarrow>
             (case hex_digit h1 of
                None \<Rightarrow> None
              | Some a \<Rightarrow>
                  (case hex_digit h2 of
                     None \<Rightarrow> None
                   | Some b \<Rightarrow> map_option (Cons (True, 16 * a + b)) (unescape rest)))
         | _ \<Rightarrow> None)
      else map_option (Cons (False, of_char c)) (unescape cs))"

text \<open>The number of bytes that follow a first byte above 127; 0 where no sequence begins.\<close>

definition followers :: "nat \<Rightarrow> nat" where
  "followers b =
     (if 192 \<le> b \<and> b < 224 then 1
      else if 224 \<le> b \<and> b < 240 then 2
      else if 240 \<le> b \<and> b < 248 then 3
      else 0)"

definition code_point_ok :: "nat list \<Rightarrow> bool" where
  "code_point_ok bs =
     (case bs of
        [b0, b1] \<Rightarrow> 128 \<le> (b0 - 192) * 64 + (b1 - 128)
      | [b0, b1, b2] \<Rightarrow>
          (let cp = (b0 - 224) * 4096 + (b1 - 128) * 64 + (b2 - 128)
           in 2048 \<le> cp \<and> \<not> (55296 \<le> cp \<and> cp \<le> 57343))
      | [b0, b1, b2, b3] \<Rightarrow>
          (let cp = (b0 - 240) * 262144 + (b1 - 128) * 4096 + (b2 - 128) * 64 + (b3 - 128)
           in 65536 \<le> cp \<and> cp \<le> 1114111)
      | _ \<Rightarrow> False)"

text \<open>
  Whether the escaped bytes form UTF-8 sequences: \<open>k\<close> further bytes of the sequence
  \<open>acc\<close> are still due.
\<close>

fun escapes_ok :: "nat \<Rightarrow> nat list \<Rightarrow> (bool \<times> nat) list \<Rightarrow> bool" where
  "escapes_ok 0 acc [] = True"
| "escapes_ok (Suc k) acc [] = False"
| "escapes_ok 0 acc ((esc, b) # ts) =
     (if \<not> esc \<or> b < 128 then escapes_ok 0 [] ts
      else if followers b = 0 then False
      else escapes_ok (followers b) [b] ts)"
| "escapes_ok (Suc k) acc ((esc, b) # ts) =
     (if esc \<and> 128 \<le> b \<and> b < 192
      then (if k = 0 then code_point_ok (acc @ [b]) \<and> escapes_ok 0 [] ts
            else escapes_ok k (acc @ [b]) ts)
      else False)"

definition decodeURIComponent :: "string \<Rightarrow> string option" where
  "decodeURIComponent s =
     (case unescape s of
        None \<Rightarrow> None
      | Some ts \<Rightarrow> if escapes_ok 0 [] ts then Some (map (\<lambda>t. char_of (snd t)) ts) else None)"

text \<open>
  The two path patterns of the router, \<open>'/'\<close> and \<open>'/:id'\<close>, as Express matches
  them against the path of the request (query string removed): \<open>'/'\<close> matches the
  root, \<open>'/:id'\<close> matches one non-empty segment, each with an optional closing
  slash. A match gives \<open>req.params.id\<close>, the decoded segment (empty for the pattern
  without parameter); a segment that cannot be decoded is an error of the match.
\<close>

datatype http_method = GET | POST | PUT | DELETE

datatype route_path = Root | IdParam

datatype matched = NoMatch | Params string | BadParam

fun match_path :: "route_path \<Rightarrow> string \<Rightarrow> matched" where
  "match_path Root p = (if p = [] \<or> p = ''/'' then Params [] else NoMatch)"
| "match_path IdParam p =
     (case p of
        [] \<Rightarrow> NoMatch
      | c # rest \<Rightarrow>
          if c \<noteq> CHR ''/'' then NoMatch
          else
            (let seg = takeWhile (\<lambda>x. x \<noteq> CHR ''/'') rest;
                 tail = dropWhile (\<lambda>x. x \<noteq> CHR ''/'') rest
             in if seg \<noteq> [] \<and> (tail = [] \<or> tail = ''/'')
                then (case decodeURIComponent seg of None \<Rightarrow> BadParam | Some i \<Rightarrow> Params i)
                else NoMatch))"

type_synonym handler = "env \<Rightarrow> store \<Rightarrow> request \<Rightarrow> outcome"

text \<open>The routes of \<open>router\<close>, in the order of their registration.\<close>

definition router :: "(http_method \<times> route_path \<times> handler) list" where
  "router =
     [(GET, Root, router_get_root),
      (GET, IdParam, router_get_id),
      (POST, Root, router_post_root),
      (PUT, IdParam, router_put_id),
      (DELETE, IdParam, router_delete_id)]"

text \<open>
  The router on a path: the routes are tried in order, the path first and then the
  method. Once a match has failed with an error no later route is taken, and the
  request ends with that error (Express answers 400); with no route at all, Express
  answers 404. Only the four methods that the router registers are modelled.
\<close>

datatype routed = Route handler string | NoRoute | BadRequest

fun route_loop :: "http_method \<Rightarrow> string \<Rightarrow> bool \<Rightarrow> (http_method \<times> route_path \<times> handler) list \<Rightarrow> routed" where
  "route_loop m p layerError [] = (if layerError then BadRequest else NoRoute)"
| "route_loop m p layerError ((m', pat, h) # stack) =
     (case match_path pat p of
        NoMatch \<Rightarrow> route_loop m p layerError stack
      | BadParam \<Rightarrow> route_loop m p True stack
      | Params i \<Rightarrow>
          if layerError then route_loop m p layerError stack
          else if m' = m then Route h i
          else route_loop m p layerError stack)"

text \<open>
  Mounting under a path, as \<open>use(path, router)\<close> does: the path of the request must
  begin with the mount path, letters compared without case, and go on with a slash
  or end there. The mount path is taken off, with one slash after it when the rest
  then still begins with a slash or is empty; an empty rest is the root. The mount
  path is a literal path without closing slash, or empty for a router mounted at the
  root, which sees the path as it is.
\<close>

definition lower :: "char \<Rightarrow> char" where
  "lower c = (let n = of_char c :: nat in if 65 \<le> n \<and> n \<le> 90 then char_of (n + 32) else c)"

definition strip_mount :: "string \<Rightarrow> string \<Rightarrow> string option" where
  "strip_mount mnt p =
     (if mnt = [] then Some p
      else if map lower (take (length mnt) p) \<noteq> map lower mnt then None
      else
        (case drop (length mnt) p of
           [] \<Rightarrow> Some ''/''
         | c # rest \<Rightarrow>
             if c \<noteq> CHR ''/'' then None
             else if rest = [] then Some ''/''
             else if hd rest = CHR ''/'' then Some rest
             else Some (c # rest)))"

definition dispatch :: "string \<Rightarrow> http_method \<Rightarrow> string \<Rightarrow> routed" where
  "dispatch mnt m p =
     (case strip_mount mnt p of
        None \<Rightarrow> NoRoute
      | Some p' \<Rightarrow> route_loop m p' False router)"

text \<open>
  Modelled from the spec: the path under which the router of the books is mounted.
  \<open>app.ts\<close> uses, at the root, the router of the module \<open>./routes\<close>. The file of the
  handlers imports \<open>../db/firebase/admin\<close>, so it lies in a directory beside \<open>db\<close>;
  the module that mounts it under a path is missing. The interface table of the
  spec and the \<open>@route\<close> comments of the handlers place the routes under \<open>/books\<close>.
\<close>

definition mount_path :: string where
  "mount_path = ''/books''"

record http_request =
  http_verb :: http_method
  url_path :: string
  json_body :: obj
  url_query :: "(string \<times> string) list"

text \<open>
  The application, with the router mounted under \<open>mnt\<close>, on one request whose body
  \<open>express.json()\<close> has parsed: \<open>None\<close> when no handler runs (Express then answers
  404 or 400 itself, and the store is not touched).
\<close>

definition app :: "string \<Rightarrow> env \<Rightarrow> store \<Rightarrow> http_request \<Rightarrow> outcome option" where
  "app mnt e db r =
     (case dispatch mnt (http_verb r) (url_path r) of
        Route h i \<Rightarrow> Some (h e db \<lparr>params_id = i, body = json_body r, query = url_query r\<rparr>)
      | NoRoute \<Rightarrow> None
      | BadRequest \<Rightarrow> None)"

text \<open>A sequence of requests, one after the other, each with its own environment.\<close>

definition app_step :: "string \<Rightarrow> store \<Rightarrow> env \<times> http_request \<Rightarrow> store" where
  "app_step mnt db er =
     (case app mnt (fst er) db (snd er) of None \<Rightarrow> db | Some (db', _) \<Rightarrow> db')"

definition run :: "string \<Rightarrow> store \<Rightarrow> (env \<times> http_request) list \<Rightarrow> store" where
  "run mnt db steps = foldl (app_step mnt) db steps"

text \<open>The identifier with which a path reaches the \<open>'/:id'\<close> routes, if it does.\<close>

definition route_id :: "string \<Rightarrow> string \<Rightarrow> string option" where
  "route_id mnt p =
     (case strip_mount mnt p of
        None \<Rightarrow> None
      | Some p' \<Rightarrow> (case match_path IdParam p' of Params i \<Rightarrow> Some i | _ \<Rightarrow> None))"

text \<open>Whether a path reaches the \<open>'/'\<close> routes.\<close>

definition root_path :: "string \<Rightarrow> string \<Rightarrow> bool" where
  "root_path mnt p =
     (case strip_mount mnt p of
        None \<Rightarrow> False
      | Some p' \<Rightarrow> (case match_path Root p' of Params i \<Rightarrow> True | _ \<Rightarrow> False))"

text \<open>Whether a request is routed to the \<open>'/:id'\<close> route of a method with a given identifier.\<close>

definition targets :: "string \<Rightarrow> http_request \<Rightarrow> http_method \<Rightarrow> string \<Rightarrow> bool" where
  "targets mnt r m i = (http_verb r = m \<and> route_id mnt (url_path r) = Some i)"

section \<open>Well-formed stores and sample environments\<close>

text \<open>
  In a well-formed store no identifier occurs twice and every record is a well-formed
  object.
\<close>

definition wf_store :: "store \<Rightarrow> bool" where
  "wf_store db = (distinct (map fst db) \<and> list_all wf_obj (map snd db))"

text \<open>An environment in which no store call fails, and one in which one kind of call fails.\<close>

definition reliable :: "string \<Rightarrow> env" where
  "reliable g = \<lparr>fault = (\<lambda>c. None), auto_id = g\<rparr>"

definition failing :: "store_call \<Rightarrow> store_error \<Rightarrow> env" where
  "failing c err = \<lparr>fault = (\<lambda>c'. if c' = c then Some err else None), auto_id = ''g1''\<rparr>"

text \<open>The place of a record in the order of the list: the key of its name.\<close>

definition name_key :: "obj \<Rightarrow> int list" where
  "name_key b = (case field b ''name'' of None \<Rightarrow> [] | Some v \<Rightarrow> value_key v)"

section \<open>Sample data\<close>

definition sample_store :: store where
  "sample_store =
     [(''k1'', [(''name'', JStr ''Emma''), (''author'', JStr ''Austen''), (''description'', JStr ''novel'')]),
      (''k2'', [(''name'', JStr ''Dune''), (''author'', JStr ''Herbert''), (''description'', JStr ''sf'')])]"

definition sample_request :: "string \<Rightarrow> obj \<Rightarrow> request" where
  "sample_request i b = \<lparr>params_id = i, body = b, query = []\<rparr>"

text \<open>A store with a record whose stored attributes include an \<open>id\<close> of their own.\<close>

definition shadowed_store :: store where
  "shadowed_store = [(''k1'', [(''id'', JStr ''zzz''), (''name'', JStr ''A'')])]"

text \<open>
  A store of 21 records: the names grow with the number of the record, the authors
  shrink.
\<close>

definition numbered_record :: "nat \<Rightarrow> string \<times> obj" where
  "numbered_record n =
     (CHR ''r'' # replicate n CHR ''i'',
      [(''name'', JStr (replicate n CHR ''a'')), (''author'', JStr (replicate (21 - n) CHR ''z''))])"

definition large_store :: store where
  "large_store = map numbered_record (rev [0..<21])"

section \<open>Sequences of requests\<close>

text \<open>
  A request creates \<open>i\<close> when it is routed to the create handler and the store
  generates \<open>i\<close> for it.
\<close>

definition creates :: "string \<Rightarrow> string \<Rightarrow> env \<times> http_request \<Rightarrow> bool" where
  "creates mnt i er =
     (http_verb (snd er) = POST \<and> root_path mnt (url_path (snd er)) \<and> auto_id (fst er) = i)"

text \<open>Whether a request was answered by a handler with the status 200.\<close>

definition answered_ok :: "outcome option \<Rightarrow> bool" where
  "answered_ok out =
     (case out of
        None \<Rightarrow> False
      | Some (db', res) \<Rightarrow> (case res of Inl err \<Rightarrow> False | Inr resp \<Rightarrow> status resp = 200))"

text \<open>
  A request disturbs the record \<open>i\<close> of a store when it deletes it, or updates it
  with a body that has an \<open>id\<close> attribute: it is routed to the delete handler for
  \<open>i\<close>, or to the update handler for \<open>i\<close> with such a body, and is answered 200.
\<close>

definition disturbs :: "string \<Rightarrow> string \<Rightarrow> store \<Rightarrow> env \<times> http_request \<Rightarrow> bool" where
  "disturbs mnt i db er =
     ((targets mnt (snd er) DELETE i
        \<or> (targets mnt (snd er) PUT i \<and> field (json_body (snd er)) ''id'' \<noteq> None))
      \<and> answered_ok (app mnt (fst er) db (snd er)))"

text \<open>No request of a sequence disturbs the record \<open>i\<close> of the store it finds.\<close>

fun undisturbed :: "string \<Rightarrow> string \<Rightarrow> store \<Rightarrow> (env \<times> http_request) list \<Rightarrow> bool" where
  "undisturbed mnt i db [] = True"
| "undisturbed mnt i db (er # steps) =
     (\<not> disturbs mnt i db er \<and> undisturbed mnt i (app_step mnt db er) steps)"

text \<open>The store holds a record under \<open>i\<close>, and the record has no \<open>id\<close> attribute.\<close>

definition plain_record :: "store \<Rightarrow> string \<Rightarrow> bool" where
  "plain_record db i = (case map_of db i of None \<Rightarrow> False | Some d \<Rightarrow> field d ''id'' = None)"

text \<open>
  A create, an update of \<open>g\<close> written with an escape, a delete of \<open>g\<close> that fails in
  the store, and a delete of \<open>k2\<close>.
\<close>

definition sample_steps :: "(env \<times> http_request) list" where
  "sample_steps =
     [(reliable ''g2'',
       \<lparr>http_verb = POST, url_path = ''/books'', json_body = [(''name'', JStr ''Ulysses'')],
        url_query = []\<rparr>),
      (reliable ''g3'',
       \<lparr>http_verb = PUT, url_path = ''/books/%67'', json_body = [(''name'', JStr ''X'')],
        url_query = []\<rparr>),
      (failing CallDelete Unavailable,
       \<lparr>http_verb = DELETE, url_path = ''/books/g'', json_body = [], url_query = []\<rparr>),
      (reliable ''g4'',
       \<lparr>http_verb = DELETE, url_path = ''/Books/k2/'', json_body = [], url_query = []\<rparr>)]"

text \<open>A request body with an \<open>id\<close> attribute of the client.\<close>

definition client_id_body :: obj where
  "client_id_body = [(''id'', JStr ''mine''), (''name'', JStr ''A'')]"

section \<open>Facts about objects\<close>

lemma map_of_spread: "map_of (spread b d) = map_of b ++ map_of (rev d)"
  unfolding spread_def
proof (induction d arbitrary: b)
  case Nil
  show ?case by simp
next
  case (Cons kv d)
  obtain k v where kv: "kv = (k, v)" by (cases kv)
  have "map_of (foldl (\<lambda>acc (k, v). AList.update k v acc) (AList.update k v b) d)
        = map_of (AList.update k v b) ++ map_of (rev d)"
    by (rule Cons.IH)
  also have "\<dots> = map_of b ++ map_of (rev d @ [(k, v)])"
    by (simp add: AList.update_conv' fun_eq_iff map_add_def split: option.splits)
  finally show ?case by (simp add: kv)
qed

lemma map_of_rev_distinct:
  "distinct (map fst xs) \<Longrightarrow> map_of (rev xs) k = map_of xs k"
proof (induction xs)
  case Nil
  show ?case by simp
next
  case (Cons x xs)
  show ?case
  proof (cases "map_of (rev xs) k")
    case None
    with Cons show ?thesis by (simp add: map_add_def)
  next
    case (Some v)
    with Cons have "map_of xs k = Some v" by simp
    then have "k \<in> fst ` set xs" by (metis map_of_eq_None_iff option.distinct(1))
    with Cons.prems have "fst x \<noteq> k" by auto
    with Cons Some show ?thesis by (simp add: map_add_def)
  qed
qed

lemma field_spread:
  "wf_obj d \<Longrightarrow>
   field (spread b d) k = (case field d k of None \<Rightarrow> field b k | Some v \<Rightarrow> Some v)"
  by (simp add: field_def wf_obj_def map_of_spread map_of_rev_distinct map_add_def
      split: option.splits)

lemma keys_spread: "fst ` set (spread b d) = fst ` set b \<union> fst ` set d"
proof -
  have "dom (map_of (spread b d)) = dom (map_of b) \<union> dom (map_of (rev d))"
    by (simp add: map_of_spread Un_commute)
  then show ?thesis by (simp add: dom_map_of_conv_image_fst)
qed

lemma field_None_iff: "field d k = None \<longleftrightarrow> k \<notin> fst ` set d"
  by (simp add: field_def map_of_eq_None_iff)

lemma field_book_of_id_absent:
  assumes "field d ''id'' = None"
  shows "field (book_of i d) ''id'' = Some (JStr i)"
proof -
  from assms have "''id'' \<notin> fst ` set (rev d)" by (simp add: field_None_iff)
  then have "map_of (rev d) ''id'' = None"
    by (simp only: map_of_eq_None_iff not_False_eq_True)
  then show ?thesis by (simp add: field_def book_of_def map_of_spread map_add_def)
qed

lemma wf_spread: "wf_obj b \<Longrightarrow> wf_obj (spread b d)"
  unfolding spread_def wf_obj_def
  by (induction d arbitrary: b) (auto simp: AList.distinct_update)

section \<open>The not-found path of update and delete\<close>

text \<open>
  Claim C1. When the lookup of the identifier of a PUT or DELETE request yields a
  snapshot that does not exist, the handler answers 404 with the body
  \<open>{message: "Book not found"}\<close> and the store after the request is the store
  before it.
\<close>

theorem C1_not_found_no_mutation:
  assumes "doc_get e db (params_id req) = Inr doc" and "\<not> snap_exists doc"
  shows "router_put_id e db req
           = (db, Inr \<lparr>status = 404, payload = message ''Book not found''\<rparr>)
       \<and> router_delete_id e db req
           = (db, Inr \<lparr>status = 404, payload = message ''Book not found''\<rparr>)"
  using assms by (simp add: router_put_id_def router_delete_id_def)

theorem C1_not_found_no_mutation_witness:
  "doc_get (reliable ''g'') [(''k1'', [(''name'', JStr ''A'')])] ''k2''
     = Inr \<lparr>snap_id = ''k2'', snap_data = None\<rparr>
   \<and> \<not> snap_exists \<lparr>snap_id = ''k2'', snap_data = None\<rparr>
   \<and> router_put_id (reliable ''g'') [(''k1'', [(''name'', JStr ''A'')])]
        \<lparr>params_id = ''k2'', body = [(''name'', JStr ''X'')], query = []\<rparr>
      = ([(''k1'', [(''name'', JStr ''A'')])],
         Inr \<lparr>status = 404, payload = message ''Book not found''\<rparr>)
   \<and> router_delete_id (reliable ''g'') [(''k1'', [(''name'', JStr ''A'')])]
        \<lparr>params_id = ''k2'', body = [(''name'', JStr ''X'')], query = []\<rparr>
      = ([(''k1'', [(''name'', JStr ''A'')])],
         Inr \<lparr>status = 404, payload = message ''Book not found''\<rparr>)"
proof -
  have g: "doc_get (reliable ''g'') [(''k1'', [(''name'', JStr ''A'')])] ''k2''
             = Inr \<lparr>snap_id = ''k2'', snap_data = None\<rparr>"
    by (simp add: doc_get_def reliable_def)
  have n: "\<not> snap_exists \<lparr>snap_id = ''k2'', snap_data = None\<rparr>"
    by (simp add: snap_exists_def)
  show ?thesis
    using g n
      C1_not_found_no_mutation [of "reliable ''g''" "[(''k1'', [(''name'', JStr ''A'')])]"
        "\<lparr>params_id = ''k2'', body = [(''name'', JStr ''X'')], query = []\<rparr>"
        "\<lparr>snap_id = ''k2'', snap_data = None\<rparr>"]
    by simp
qed

section \<open>Store failures\<close>

text \<open>
  Claim C2. When a store call fails, the PUT and DELETE handlers catch the failure
  and answer 500 with the body \<open>{message: "Internal Server Error"}\<close>, whether the
  failing call is the lookup or the write; they never leave a failure uncaught. The
  list, get-single and create handlers do not catch it: the failure of their store
  call is the outcome of the handler. In every case the store is unchanged.
\<close>

theorem C2_store_failure_policy:
  "(doc_get e db (params_id req) = Inl err \<longrightarrow>
       router_put_id e db req = (db, Inr \<lparr>status = 500, payload = message ''Internal Server Error''\<rparr>)
     \<and> router_delete_id e db req = (db, Inr \<lparr>status = 500, payload = message ''Internal Server Error''\<rparr>)
     \<and> router_get_id e db req = (db, Inl err))
   \<and> (doc_get e db (params_id req) = Inr doc \<and> snap_exists doc
        \<and> doc_update e db (params_id req) (body req) = Inl err \<longrightarrow>
       router_put_id e db req = (db, Inr \<lparr>status = 500, payload = message ''Internal Server Error''\<rparr>))
   \<and> (doc_get e db (params_id req) = Inr doc \<and> snap_exists doc
        \<and> doc_delete e db (params_id req) = Inl err \<longrightarrow>
       router_delete_id e db req = (db, Inr \<lparr>status = 500, payload = message ''Internal Server Error''\<rparr>))
   \<and> (query_get e db ''name'' 20 = Inl err \<longrightarrow> router_get_root e db req = (db, Inl err))
   \<and> (doc_add e db (body req) = Inl err \<longrightarrow> router_post_root e db req = (db, Inl err))
   \<and> snd (router_put_id e db req) \<noteq> Inl err
   \<and> snd (router_delete_id e db req) \<noteq> Inl err"
  by (simp add: router_put_id_def router_delete_id_def router_get_id_def router_get_root_def
      router_post_root_def Let_def split: sum.splits)

theorem C2_store_failure_policy_witness:
  "doc_get (failing CallGet Unavailable) sample_store ''k1'' = Inl Unavailable
   \<and> router_put_id (failing CallGet Unavailable) sample_store (sample_request ''k1'' [(''name'', JStr ''X'')])
       = (sample_store, Inr \<lparr>status = 500, payload = message ''Internal Server Error''\<rparr>)
   \<and> router_delete_id (failing CallGet Unavailable) sample_store (sample_request ''k1'' [(''name'', JStr ''X'')])
       = (sample_store, Inr \<lparr>status = 500, payload = message ''Internal Server Error''\<rparr>)
   \<and> router_get_id (failing CallGet Unavailable) sample_store (sample_request ''k1'' [(''name'', JStr ''X'')])
       = (sample_store, Inl Unavailable)
   \<and> doc_update (failing CallUpdate Unavailable) sample_store ''k1'' [(''name'', JStr ''X'')] = Inl Unavailable
   \<and> router_put_id (failing CallUpdate Unavailable) sample_store (sample_request ''k1'' [(''name'', JStr ''X'')])
       = (sample_store, Inr \<lparr>status = 500, payload = message ''Internal Server Error''\<rparr>)
   \<and> doc_delete (failing CallDelete Unavailable) sample_store ''k1'' = Inl Unavailable
   \<and> router_delete_id (failing CallDelete Unavailable) sample_store (sample_request ''k1'' [(''name'', JStr ''X'')])
       = (sample_store, Inr \<lparr>status = 500, payload = message ''Internal Server Error''\<rparr>)
   \<and> query_get (failing CallQuery Unavailable) sample_store ''name'' 20 = Inl Unavailable
   \<and> router_get_root (failing CallQuery Unavailable) sample_store (sample_request ''k1'' [(''name'', JStr ''X'')])
       = (sample_store, Inl Unavailable)
   \<and> doc_add (failing CallAdd Unavailable) sample_store [(''name'', JStr ''X'')] = Inl Unavailable
   \<and> router_post_root (failing CallAdd Unavailable) sample_store (sample_request ''k1'' [(''name'', JStr ''X'')])
       = (sample_store, Inl Unavailable)"
proof -
  let ?r = "sample_request ''k1'' [(''name'', JStr ''X'')]"
  let ?s = "\<lparr>snap_id = ''k1'', snap_data = map_of sample_store ''k1''\<rparr>"
  have r: "params_id ?r = ''k1''" "body ?r = [(''name'', JStr ''X'')]"
    by (simp_all add: sample_request_def)
  have ex: "snap_exists ?s"
    by (simp add: snap_exists_def sample_store_def)
  have g: "doc_get (failing CallGet Unavailable) sample_store ''k1'' = Inl Unavailable"
    by (simp add: doc_get_def failing_def)
  have gu: "doc_get (failing CallUpdate Unavailable) sample_store ''k1'' = Inr ?s"
    by (simp add: doc_get_def failing_def)
  have gd: "doc_get (failing CallDelete Unavailable) sample_store ''k1'' = Inr ?s"
    by (simp add: doc_get_def failing_def)
  have u: "doc_update (failing CallUpdate Unavailable) sample_store ''k1'' [(''name'', JStr ''X'')] = Inl Unavailable"
    by (simp add: doc_update_def failing_def)
  have d: "doc_delete (failing CallDelete Unavailable) sample_store ''k1'' = Inl Unavailable"
    by (simp add: doc_delete_def failing_def)
  have q: "query_get (failing CallQuery Unavailable) sample_store ''name'' 20 = Inl Unavailable"
    by (simp add: query_get_def failing_def)
  have a: "doc_add (failing CallAdd Unavailable) sample_store [(''name'', JStr ''X'')] = Inl Unavailable"
    by (simp add: doc_add_def failing_def)
  show ?thesis
    using r ex g gu gd u d q a
      C2_store_failure_policy [of "failing CallGet Unavailable" sample_store ?r Unavailable ?s]
      C2_store_failure_policy [of "failing CallUpdate Unavailable" sample_store ?r Unavailable ?s]
      C2_store_failure_policy [of "failing CallDelete Unavailable" sample_store ?r Unavailable ?s]
      C2_store_failure_policy [of "failing CallQuery Unavailable" sample_store ?r Unavailable ?s]
      C2_store_failure_policy [of "failing CallAdd Unavailable" sample_store ?r Unavailable ?s]
    by simp
qed

section \<open>Update\<close>

text \<open>
  Claim C3. For a record that exists under an identifier, a PUT with the body
  \<open>{name: "X"}\<close>, with no store failure, answers 200 with the body
  \<open>{message: "Book updated successfully"}\<close>; afterwards the record under that
  identifier has the name \<open>"X"\<close>, and its author and description are what they were.
\<close>

theorem C3_put_name:
  assumes "map_of db i = Some d" and "fault e CallGet = None" and "fault e CallUpdate = None"
  shows "\<exists>db' d'.
           router_put_id e db \<lparr>params_id = i, body = [(''name'', JStr x)], query = q\<rparr>
             = (db', Inr \<lparr>status = 200, payload = message ''Book updated successfully''\<rparr>)
         \<and> map_of db' i = Some d'
         \<and> field d' ''name'' = Some (JStr x)
         \<and> field d' ''author'' = field d ''author''
         \<and> field d' ''description'' = field d ''description''"
  using assms
  by (simp add: router_put_id_def doc_get_def doc_update_def snap_exists_def spread_def
      field_def AList.update_conv')

theorem C3_put_name_witness:
  "map_of sample_store ''k1''
     = Some [(''name'', JStr ''Emma''), (''author'', JStr ''Austen''), (''description'', JStr ''novel'')]
   \<and> fault (reliable ''g'') CallGet = None
   \<and> fault (reliable ''g'') CallUpdate = None
   \<and> (\<exists>db' d'.
          router_put_id (reliable ''g'') sample_store
             \<lparr>params_id = ''k1'', body = [(''name'', JStr ''X'')], query = []\<rparr>
            = (db', Inr \<lparr>status = 200, payload = message ''Book updated successfully''\<rparr>)
        \<and> map_of db' ''k1'' = Some d'
        \<and> field d' ''name'' = Some (JStr ''X'')
        \<and> field d' ''author'' = Some (JStr ''Austen'')
        \<and> field d' ''description'' = Some (JStr ''novel''))"
proof -
  have d: "map_of sample_store ''k1''
     = Some [(''name'', JStr ''Emma''), (''author'', JStr ''Austen''), (''description'', JStr ''novel'')]"
    by (simp add: sample_store_def)
  have f: "fault (reliable ''g'') CallGet = None" "fault (reliable ''g'') CallUpdate = None"
    by (simp_all add: reliable_def)
  show ?thesis
    using d f C3_put_name [OF d f, of "''X''" "[]"]
    by (simp add: field_def)
qed

section \<open>Create\<close>

text \<open>
  Claim C8. With no store failure (the add does not fail and the generated identifier
  is not in use), a POST with the body \<open>{name: "A", author: "B", description: "C"}\<close>
  answers 201 with the generated identifier followed by the three attributes as
  submitted, and the store holds the body under that identifier. Whatever the body,
  it is stored as it is: nothing is checked.
\<close>

theorem C8_post_echo:
  assumes "fault e CallAdd = None" and "map_of db (auto_id e) = None"
  shows "router_post_root e db
            \<lparr>params_id = p,
             body = [(''name'', JStr a), (''author'', JStr b), (''description'', JStr c)],
             query = q\<rparr>
           = (db @ [(auto_id e, [(''name'', JStr a), (''author'', JStr b), (''description'', JStr c)])],
              Inr \<lparr>status = 201,
                   payload = JObj [(''id'', JStr (auto_id e)), (''name'', JStr a),
                                   (''author'', JStr b), (''description'', JStr c)]\<rparr>)
         \<and> fst (router_post_root e db \<lparr>params_id = p, body = bd, query = q\<rparr>)
             = db @ [(auto_id e, bd)]
         \<and> map_of (fst (router_post_root e db \<lparr>params_id = p, body = bd, query = q\<rparr>)) (auto_id e)
             = Some bd"
  using assms
  by (simp add: router_post_root_def doc_add_def spread_def Let_def map_add_def)

theorem C8_post_echo_witness:
  "fault (reliable ''g'') CallAdd = None
   \<and> map_of sample_store (auto_id (reliable ''g'')) = None
   \<and> router_post_root (reliable ''g'') sample_store
        \<lparr>params_id = [],
         body = [(''name'', JStr ''A''), (''author'', JStr ''B''), (''description'', JStr ''C'')],
         query = []\<rparr>
       = (sample_store
            @ [(''g'', [(''name'', JStr ''A''), (''author'', JStr ''B''), (''description'', JStr ''C'')])],
          Inr \<lparr>status = 201,
               payload = JObj [(''id'', JStr ''g''), (''name'', JStr ''A''),
                               (''author'', JStr ''B''), (''description'', JStr ''C'')]\<rparr>)
   \<and> map_of (fst (router_post_root (reliable ''g'') sample_store
                 \<lparr>params_id = [], body = [(''title'', JNum 7)], query = []\<rparr>)) ''g''
       = Some [(''title'', JNum 7)]"
proof -
  have f: "fault (reliable ''g'') CallAdd = None"
    by (simp add: reliable_def)
  have n: "map_of sample_store (auto_id (reliable ''g'')) = None"
    by (simp add: reliable_def sample_store_def)
  have g: "auto_id (reliable ''g'') = ''g''"
    by (simp add: reliable_def)
  show ?thesis
    using f n C8_post_echo [OF f n, of "[]" "''A''" "''B''" "''C''" "[]" "[(''title'', JNum 7)]"]
    unfolding g by blast
qed

section \<open>The list\<close>

lemma with_field_elem:
  assumes "(k, i, d) \<in> set (with_field f db)"
  shows "(i, d) \<in> set db \<and> (\<exists>v. field d f = Some v \<and> k = value_key v)"
  using assms
  by (auto simp: with_field_def List.map_filter_def split: option.splits)

lemma sorted_fst_of_pairs:
  "sorted (map (\<lambda>(k, i, d). (k, i)) xs) \<Longrightarrow> sorted (map fst xs)"
  by (induction xs) (auto simp: less_eq_prod_def)

lemma str_key_le: "str_key a \<le> str_key b \<longleftrightarrow> a \<le> b"
proof (induction a arbitrary: b)
  case Nil
  show ?case by (cases b) (simp_all add: str_key_def)
next
  case (Cons x xs)
  show ?case
  proof (cases b)
    case Nil
    then show ?thesis by (simp add: str_key_def)
  next
    case (Cons y ys)
    have "str_key xs \<le> str_key ys \<longleftrightarrow> xs \<le> ys" by (rule Cons.IH)
    then show ?thesis
      using Cons by (auto simp: str_key_def less_char_def)
  qed
qed

lemma value_key_JStr_le: "value_key (JStr a) \<le> value_key (JStr b) \<longleftrightarrow> a \<le> b"
  by (simp add: str_key_le)

lemma field_book_of_other:
  assumes "wf_obj d" and "k \<noteq> ''id''"
  shows "field (book_of i d) k = field d k"
  using assms by (simp add: book_of_def field_spread) (simp add: field_def split: option.splits)

lemma order_by_limit_props:
  assumes "list_all wf_obj (map snd db)"
  shows "length (order_by_limit f n db) \<le> n"
    and "set (order_by_limit f n db) \<subseteq> set db"
    and "f \<noteq> ''id'' \<Longrightarrow>
         map (\<lambda>(i, d). case field (book_of i d) f of None \<Rightarrow> [] | Some v \<Rightarrow> value_key v)
             (order_by_limit f n db)
         = map fst (take n (sort_key (\<lambda>(k, i, d). (k, i)) (with_field f db)))"
proof -
  let ?S = "sort_key (\<lambda>(k, i, d). (k, i)) (with_field f db)"
  show "length (order_by_limit f n db) \<le> n"
    by (simp add: order_by_limit_def)
  have el: "(i, d) \<in> set db \<and> (\<exists>v. field d f = Some v \<and> k = value_key v)"
    if "(k, i, d) \<in> set (take n ?S)" for k i d
  proof -
    from that have "(k, i, d) \<in> set ?S" by (rule in_set_takeD)
    then have "(k, i, d) \<in> set (with_field f db)" by simp
    then show ?thesis by (rule with_field_elem)
  qed
  show "set (order_by_limit f n db) \<subseteq> set db"
    using el by (auto simp: order_by_limit_def)
  show "map (\<lambda>(i, d). case field (book_of i d) f of None \<Rightarrow> [] | Some v \<Rightarrow> value_key v)
             (order_by_limit f n db)
         = map fst (take n ?S)" if nid: "f \<noteq> ''id''"
  proof -
    have "(case field (book_of i d) f of None \<Rightarrow> [] | Some v \<Rightarrow> value_key v) = k"
      if "(k, i, d) \<in> set (take n ?S)" for k i d
    proof -
      from el [OF that] obtain v where m: "(i, d) \<in> set db" and v: "field d f = Some v" "k = value_key v"
        by blast
      from m assms have "wf_obj d" by (auto simp: list_all_iff)
      then have "field (book_of i d) f = field d f" using nid by (rule field_book_of_other)
      with v show ?thesis by simp
    qed
    then show ?thesis
      by (auto simp: order_by_limit_def)
  qed
qed

text \<open>
  Claim C4, as amended. On every store whose records are well formed, the list
  operation, with no store failure, answers 200 with a sequence of at most 20 records
  in ascending order of their name attribute (for names that are strings: the order
  of strings), each of them with a name. Each record is a stored record with its
  attributes other than \<open>id\<close> as stored, and its \<open>id\<close> attribute is the
  store-assigned identifier whenever the stored record has no \<open>id\<close> attribute of its
  own. On the empty store the sequence is empty.
\<close>

theorem C4_list_sorted_capped:
  assumes "fault e CallQuery = None" and "wf_store db"
  shows "\<exists>books.
           router_get_root e db req
             = (db, Inr \<lparr>status = 200, payload = JArr (map JObj books)\<rparr>)
         \<and> length books \<le> 20
         \<and> sorted (map name_key books)
         \<and> list_all (\<lambda>b. field b ''name'' \<noteq> None) books
         \<and> (\<forall>m n a b. m < n \<and> n < length books
                \<and> field (books ! m) ''name'' = Some (JStr a)
                \<and> field (books ! n) ''name'' = Some (JStr b) \<longrightarrow> a \<le> b)
         \<and> (\<forall>b \<in> set books. \<exists>i d. (i, d) \<in> set db \<and> b = book_of i d
                \<and> (\<forall>k. k \<noteq> ''id'' \<longrightarrow> field b k = field d k)
                \<and> (field d ''id'' = None \<longrightarrow> field b ''id'' = Some (JStr i)))
         \<and> (db = [] \<longrightarrow> books = [])"
proof -
  let ?docs = "order_by_limit ''name'' 20 db"
  let ?books = "map (\<lambda>(i, d). book_of i d) ?docs"
  let ?S = "sort_key (\<lambda>(k, i, d). (k, i)) (with_field ''name'' db)"
  from assms(2) have wf: "list_all wf_obj (map snd db)" by (simp add: wf_store_def)
  have out: "router_get_root e db req
               = (db, Inr \<lparr>status = 200, payload = JArr (map JObj ?books)\<rparr>)"
    using assms(1) by (simp add: router_get_root_def query_get_def comp_def case_prod_unfold)
  have len: "length ?books \<le> 20"
    using order_by_limit_props(1) [OF wf, of "''name''" 20] by simp
  have keys: "map name_key ?books = map fst (take 20 ?S)"
    using order_by_limit_props(3) [OF wf, of "''name''" 20]
    by (simp add: name_key_def comp_def case_prod_unfold)
  have "sorted (map (\<lambda>(k, i, d). (k, i)) ?S)" by (rule sorted_sort_key)
  then have "sorted (map fst ?S)" by (rule sorted_fst_of_pairs)
  then have "sorted (take 20 (map fst ?S))" by (rule sorted_wrt_take)
  then have srt: "sorted (map name_key ?books)" by (simp only: keys take_map)
  have src: "\<exists>i d. (i, d) \<in> set db \<and> b = book_of i d
                \<and> (\<forall>k. k \<noteq> ''id'' \<longrightarrow> field b k = field d k)
                \<and> (field d ''id'' = None \<longrightarrow> field b ''id'' = Some (JStr i))
                \<and> field d ''name'' \<noteq> None"
    if "b \<in> set ?books" for b
  proof -
    from that obtain i d where m: "(i, d) \<in> set ?docs" and b: "b = book_of i d" by auto
    from m obtain k where "(k, i, d) \<in> set (take 20 ?S)"
      by (auto simp: order_by_limit_def)
    then have "(k, i, d) \<in> set ?S" by (rule in_set_takeD)
    then have "(k, i, d) \<in> set (with_field ''name'' db)" by simp
    then have e: "(i, d) \<in> set db \<and> (\<exists>v. field d ''name'' = Some v \<and> k = value_key v)"
      by (rule with_field_elem)
    with wf have "wf_obj d" by (auto simp: list_all_iff)
    then have o: "\<forall>k. k \<noteq> ''id'' \<longrightarrow> field b k = field d k"
      by (simp add: b field_book_of_other)
    have s: "field d ''id'' = None \<longrightarrow> field b ''id'' = Some (JStr i)"
      by (simp add: b field_book_of_id_absent)
    from e have "(i, d) \<in> set db" and "field d ''name'' \<noteq> None" by auto
    with b o s show ?thesis by (intro exI [of _ i] exI [of _ d] conjI)
  qed
  have named: "list_all (\<lambda>b. field b ''name'' \<noteq> None) ?books"
    unfolding list_all_iff
  proof
    fix b assume "b \<in> set ?books"
    from src [OF this] show "field b ''name'' \<noteq> None" by auto
  qed
  have strs: "a \<le> b"
    if "m < n \<and> n < length ?books
        \<and> field (?books ! m) ''name'' = Some (JStr a)
        \<and> field (?books ! n) ''name'' = Some (JStr b)" for m n a b
  proof -
    from that have fa: "field (?books ! m) ''name'' = Some (JStr a)"
      and fb: "field (?books ! n) ''name'' = Some (JStr b)"
      and mn0: "m < n" "n < length ?books"
      by blast+
    from mn0 have lt: "m < length ?books" "n < length ?books" "m \<le> n"
      by simp_all
    from lt have mn: "m \<le> n" "n < length (map name_key ?books)" by simp_all
    from srt mn have "map name_key ?books ! m \<le> map name_key ?books ! n"
      by (rule sorted_nth_mono)
    then have "name_key (?books ! m) \<le> name_key (?books ! n)"
      by (simp only: nth_map [OF lt(1)] nth_map [OF lt(2)])
    then have "value_key (JStr a) \<le> value_key (JStr b)"
      unfolding name_key_def fa fb by simp
    then show ?thesis by (simp only: value_key_JStr_le)
  qed
  have emp: "?books = []" if "db = []"
    using that by (simp add: order_by_limit_def with_field_def)
  show ?thesis
  proof (intro exI [of _ ?books] conjI allI impI ballI)
    show "router_get_root e db req
            = (db, Inr \<lparr>status = 200, payload = JArr (map JObj ?books)\<rparr>)"
      by (fact out)
    show "length ?books \<le> 20" by (fact len)
    show "sorted (map name_key ?books)" by (fact srt)
    show "list_all (\<lambda>b. field b ''name'' \<noteq> None) ?books" by (fact named)
  next
    fix m n a b
    assume "m < n \<and> n < length ?books
        \<and> field (?books ! m) ''name'' = Some (JStr a)
        \<and> field (?books ! n) ''name'' = Some (JStr b)"
    then show "a \<le> b" by (rule strs)
  next
    fix b assume "b \<in> set ?books"
    from src [OF this] show "\<exists>i d. (i, d) \<in> set db \<and> b = book_of i d
                \<and> (\<forall>k. k \<noteq> ''id'' \<longrightarrow> field b k = field d k)
                \<and> (field d ''id'' = None \<longrightarrow> field b ''id'' = Some (JStr i))"
      by (elim exE conjE) (intro exI conjI; assumption)
  next
    assume "db = []"
    then show "?books = []" by (rule emp)
  qed
qed

theorem C4_list_sorted_capped_witness:
  "fault (reliable ''g'') CallQuery = None
   \<and> wf_store sample_store
   \<and> router_get_root (reliable ''g'') sample_store \<lparr>params_id = [], body = [], query = []\<rparr>
       = (sample_store,
          Inr \<lparr>status = 200,
               payload = JArr (map JObj
                 [[(''id'', JStr ''k2''), (''name'', JStr ''Dune''), (''author'', JStr ''Herbert''),
                   (''description'', JStr ''sf'')],
                  [(''id'', JStr ''k1''), (''name'', JStr ''Emma''), (''author'', JStr ''Austen''),
                   (''description'', JStr ''novel'')]])\<rparr>)
   \<and> (\<exists>books.
         router_get_root (reliable ''g'') sample_store \<lparr>params_id = [], body = [], query = []\<rparr>
           = (sample_store, Inr \<lparr>status = 200, payload = JArr (map JObj books)\<rparr>)
       \<and> length books \<le> 20
       \<and> sorted (map name_key books)
       \<and> list_all (\<lambda>b. field b ''name'' \<noteq> None) books)"
proof -
  have f: "fault (reliable ''g'') CallQuery = None"
    by (simp add: reliable_def)
  have w: "wf_store sample_store"
    by (simp add: wf_store_def sample_store_def wf_obj_def)
  have q: "order_by_limit ''name'' 20 sample_store =
     [(''k2'', [(''name'', JStr ''Dune''), (''author'', JStr ''Herbert''), (''description'', JStr ''sf'')]),
      (''k1'', [(''name'', JStr ''Emma''), (''author'', JStr ''Austen''), (''description'', JStr ''novel'')])]"
    by code_simp
  have v: "router_get_root (reliable ''g'') sample_store \<lparr>params_id = [], body = [], query = []\<rparr>
       = (sample_store,
          Inr \<lparr>status = 200,
               payload = JArr (map JObj
                 [[(''id'', JStr ''k2''), (''name'', JStr ''Dune''), (''author'', JStr ''Herbert''),
                   (''description'', JStr ''sf'')],
                  [(''id'', JStr ''k1''), (''name'', JStr ''Emma''), (''author'', JStr ''Austen''),
                   (''description'', JStr ''novel'')]])\<rparr>)"
    by (simp add: router_get_root_def query_get_def f q book_of_def spread_def)
  from C4_list_sorted_capped [OF f w, of "\<lparr>params_id = [], body = [], query = []\<rparr>"]
  have "\<exists>books.
         router_get_root (reliable ''g'') sample_store \<lparr>params_id = [], body = [], query = []\<rparr>
           = (sample_store, Inr \<lparr>status = 200, payload = JArr (map JObj books)\<rparr>)
       \<and> length books \<le> 20
       \<and> sorted (map name_key books)
       \<and> list_all (\<lambda>b. field b ''name'' \<noteq> None) books"
    by (elim exE conjE) (intro exI conjI; assumption)
  with f w v show ?thesis by (intro conjI)
qed

text \<open>
  Claim C4 as stated fails: a stored record with an \<open>id\<close> attribute of its own is
  listed with that attribute, not with its store-assigned identifier. A POST with
  the body \<open>{id: "zzz", name: "A"}\<close> on the empty store creates such a record, under
  the identifier \<open>k1\<close>; the list then shows it with the id \<open>zzz\<close>.
\<close>

theorem C4_counterexample:
  "router_post_root (reliable ''k1'') []
       \<lparr>params_id = [], body = [(''id'', JStr ''zzz''), (''name'', JStr ''A'')], query = []\<rparr>
     = (shadowed_store,
        Inr \<lparr>status = 201, payload = JObj [(''id'', JStr ''zzz''), (''name'', JStr ''A'')]\<rparr>)
   \<and> map_of shadowed_store ''k1'' = Some [(''id'', JStr ''zzz''), (''name'', JStr ''A'')]
   \<and> router_get_root (reliable ''g'') shadowed_store \<lparr>params_id = [], body = [], query = []\<rparr>
     = (shadowed_store,
        Inr \<lparr>status = 200, payload = JArr [JObj [(''id'', JStr ''zzz''), (''name'', JStr ''A'')]]\<rparr>)"
  by (simp add: router_post_root_def doc_add_def router_get_root_def query_get_def reliable_def
      order_by_limit_def with_field_def field_def book_of_def spread_def shadowed_store_def
      Let_def)

section \<open>What a request leaves in the store\<close>

lemma reads_keep_store:
  "fst (router_get_root e db req) = db" "fst (router_get_id e db req) = db"
  by (simp_all add: router_get_root_def router_get_id_def Let_def split: sum.splits)

lemma post_keeps_absent:
  assumes "map_of db i = None" and "auto_id e \<noteq> i"
  shows "map_of (fst (router_post_root e db req)) i = None"
  using assms
  by (simp add: router_post_root_def doc_add_def Let_def map_add_def split: option.splits)

lemma put_keeps_absent:
  assumes "map_of db i = None"
  shows "map_of (fst (router_put_id e db req)) i = None"
  using assms
  by (auto simp: router_put_id_def doc_get_def doc_update_def snap_exists_def Let_def
      AList.update_conv' split: option.splits)

lemma delete_keeps_absent:
  assumes "map_of db i = None"
  shows "map_of (fst (router_delete_id e db req)) i = None"
  using assms
  by (auto simp: router_delete_id_def doc_get_def doc_delete_def snap_exists_def Let_def
      AList.delete_conv' split: option.splits)

lemma route_loop_router:
  "route_loop m p False router =
     (case match_path Root p of
        Params i \<Rightarrow>
          (if m = GET then Route router_get_root i
           else
             (case match_path IdParam p of
                NoMatch \<Rightarrow> (if m = POST then Route router_post_root i else NoRoute)
              | BadParam \<Rightarrow> BadRequest
              | Params j \<Rightarrow>
                  (case m of
                     GET \<Rightarrow> Route router_get_root i
                   | POST \<Rightarrow> Route router_post_root i
                   | PUT \<Rightarrow> Route router_put_id j
                   | DELETE \<Rightarrow> Route router_delete_id j)))
      | BadParam \<Rightarrow> BadRequest
      | NoMatch \<Rightarrow>
          (case match_path IdParam p of
             NoMatch \<Rightarrow> NoRoute
           | BadParam \<Rightarrow> BadRequest
           | Params j \<Rightarrow>
               (case m of
                  GET \<Rightarrow> Route router_get_id j
                | POST \<Rightarrow> NoRoute
                | PUT \<Rightarrow> Route router_put_id j
                | DELETE \<Rightarrow> Route router_delete_id j)))"
  by (cases m; cases "match_path Root p"; cases "match_path IdParam p")
     (simp_all add: router_def del: match_path.simps)

lemma app_cases:
  fixes r :: http_request
  defines "rq \<equiv> \<lambda>i. \<lparr>params_id = i, body = json_body r, query = url_query r\<rparr>"
  shows "app mnt e db r = None
       \<or> (\<exists>i. http_verb r = GET \<and> app mnt e db r = Some (router_get_root e db (rq i)))
       \<or> (\<exists>i. http_verb r = GET \<and> app mnt e db r = Some (router_get_id e db (rq i)))
       \<or> (\<exists>i. http_verb r = POST \<and> root_path mnt (url_path r)
              \<and> app mnt e db r = Some (router_post_root e db (rq i)))
       \<or> (\<exists>i. targets mnt r PUT i \<and> app mnt e db r = Some (router_put_id e db (rq i)))
       \<or> (\<exists>i. targets mnt r DELETE i \<and> app mnt e db r = Some (router_delete_id e db (rq i)))"
proof (cases "strip_mount mnt (url_path r)")
  case None
  then show ?thesis by (simp add: app_def dispatch_def)
next
  case (Some p)
  then show ?thesis
    unfolding rq_def
    by (cases "http_verb r"; cases "match_path Root p"; cases "match_path IdParam p")
       (auto simp add: app_def dispatch_def route_loop_router targets_def route_id_def
          root_path_def simp del: match_path.simps)
qed

lemma app_step_Some:
  "app mnt (fst er) db (snd er) = Some out \<Longrightarrow> app_step mnt db er = fst out"
  by (simp add: app_step_def split: prod.splits)

lemma app_step_keeps_absent:
  assumes "map_of db i = None" and "\<not> creates mnt i er"
  shows "map_of (app_step mnt db er) i = None"
proof -
  let ?rq = "\<lambda>j. \<lparr>params_id = j, body = json_body (snd er), query = url_query (snd er)\<rparr>"
  let ?out = "app mnt (fst er) db (snd er)"
  from app_cases [of mnt "fst er" db "snd er"] show ?thesis
  proof (elim disjE exE conjE)
    assume "?out = None"
    with assms(1) show ?thesis by (simp add: app_step_def)
  next
    fix j assume "?out = Some (router_get_root (fst er) db (?rq j))"
    with assms(1) reads_keep_store(1) [of "fst er" db "?rq j"] show ?thesis
      by (simp add: app_step_Some)
  next
    fix j assume "?out = Some (router_get_id (fst er) db (?rq j))"
    with assms(1) reads_keep_store(2) [of "fst er" db "?rq j"] show ?thesis
      by (simp add: app_step_Some)
  next
    fix j assume p: "http_verb (snd er) = POST" "root_path mnt (url_path (snd er))"
      and o: "?out = Some (router_post_root (fst er) db (?rq j))"
    from p assms(2) have "auto_id (fst er) \<noteq> i" by (simp add: creates_def)
    with assms(1) have "map_of (fst (router_post_root (fst er) db (?rq j))) i = None"
      by (rule post_keeps_absent)
    with o show ?thesis by (simp add: app_step_Some)
  next
    fix j assume o: "?out = Some (router_put_id (fst er) db (?rq j))"
    from assms(1) have "map_of (fst (router_put_id (fst er) db (?rq j))) i = None"
      by (rule put_keeps_absent)
    with o show ?thesis by (simp add: app_step_Some)
  next
    fix j assume o: "?out = Some (router_delete_id (fst er) db (?rq j))"
    from assms(1) have "map_of (fst (router_delete_id (fst er) db (?rq j))) i = None"
      by (rule delete_keeps_absent)
    with o show ?thesis by (simp add: app_step_Some)
  qed
qed

lemma run_keeps_absent:
  assumes "map_of db i = None" and "list_all (\<lambda>er. \<not> creates mnt i er) steps"
  shows "map_of (run mnt db steps) i = None"
  using assms unfolding run_def
proof (induction steps arbitrary: db)
  case Nil
  then show ?case by simp
next
  case (Cons er steps)
  from Cons.prems have "map_of (app_step mnt db er) i = None"
    by (simp add: app_step_keeps_absent)
  with Cons show ?case by simp
qed

lemma post_keeps_plain:
  assumes "plain_record db i"
  shows "plain_record (fst (router_post_root e db req)) i"
  using assms
  by (auto simp: plain_record_def router_post_root_def doc_add_def Let_def map_add_def
      split: option.splits)

lemma put_keeps_plain:
  assumes "plain_record db i" and "params_id req = i \<longrightarrow> field (body req) ''id'' = None"
  shows "plain_record (fst (router_put_id e db req)) i"
proof (cases "params_id req = i")
  case False
  with assms(1) show ?thesis
    by (auto simp: plain_record_def router_put_id_def doc_get_def doc_update_def snap_exists_def
        Let_def AList.update_conv' split: option.splits)
next
  case True
  with assms(2) have b: "''id'' \<notin> fst ` set (body req)" by (simp add: field_None_iff)
  from assms(1) obtain d where d: "map_of db i = Some d" "''id'' \<notin> fst ` set d"
    by (auto simp: plain_record_def field_None_iff split: option.splits)
  from b d(2) have "field (spread d (body req)) ''id'' = None"
    by (simp add: field_None_iff keys_spread)
  with d True show ?thesis
    by (auto simp: field_None_iff plain_record_def router_put_id_def doc_get_def doc_update_def snap_exists_def
        Let_def AList.update_conv' split: option.splits)
qed

lemma delete_keeps_plain:
  assumes "plain_record db i" and "params_id req \<noteq> i"
  shows "plain_record (fst (router_delete_id e db req)) i"
  using assms
  by (auto simp: plain_record_def router_delete_id_def doc_get_def doc_delete_def snap_exists_def
      Let_def AList.delete_conv' split: option.splits)

lemma put_unanswered:
  assumes "\<not> answered_ok (Some (router_put_id e db req))"
  shows "fst (router_put_id e db req) = db"
  using assms
  by (simp add: answered_ok_def router_put_id_def Let_def split: sum.splits if_splits)

lemma delete_unanswered:
  assumes "\<not> answered_ok (Some (router_delete_id e db req))"
  shows "fst (router_delete_id e db req) = db"
  using assms
  by (simp add: answered_ok_def router_delete_id_def Let_def split: sum.splits if_splits)

lemma app_step_keeps_plain:
  assumes "plain_record db i" and "\<not> disturbs mnt i db er"
  shows "plain_record (app_step mnt db er) i"
proof -
  let ?rq = "\<lambda>j. \<lparr>params_id = j, body = json_body (snd er), query = url_query (snd er)\<rparr>"
  let ?out = "app mnt (fst er) db (snd er)"
  from app_cases [of mnt "fst er" db "snd er"] show ?thesis
  proof (elim disjE exE conjE)
    assume "?out = None"
    with assms(1) show ?thesis by (simp add: app_step_def)
  next
    fix j assume "?out = Some (router_get_root (fst er) db (?rq j))"
    with assms(1) reads_keep_store(1) [of "fst er" db "?rq j"] show ?thesis
      by (simp add: app_step_Some)
  next
    fix j assume "?out = Some (router_get_id (fst er) db (?rq j))"
    with assms(1) reads_keep_store(2) [of "fst er" db "?rq j"] show ?thesis
      by (simp add: app_step_Some)
  next
    fix j assume o: "?out = Some (router_post_root (fst er) db (?rq j))"
    from assms(1) have "plain_record (fst (router_post_root (fst er) db (?rq j))) i"
      by (rule post_keeps_plain)
    with o show ?thesis by (simp add: app_step_Some)
  next
    fix j assume t: "targets mnt (snd er) PUT j"
      and o: "?out = Some (router_put_id (fst er) db (?rq j))"
    have "plain_record (fst (router_put_id (fst er) db (?rq j))) i"
    proof (cases "j = i \<and> field (json_body (snd er)) ''id'' \<noteq> None")
      case False
      then have "params_id (?rq j) = i \<longrightarrow> field (body (?rq j)) ''id'' = None" by auto
      with assms(1) show ?thesis by (rule put_keeps_plain)
    next
      case True
      with t assms(2) have "\<not> answered_ok ?out" by (auto simp: disturbs_def)
      with o have "fst (router_put_id (fst er) db (?rq j)) = db"
        by (simp add: put_unanswered)
      with assms(1) show ?thesis by simp
    qed
    with o show ?thesis by (simp add: app_step_Some)
  next
    fix j assume t: "targets mnt (snd er) DELETE j"
      and o: "?out = Some (router_delete_id (fst er) db (?rq j))"
    have "plain_record (fst (router_delete_id (fst er) db (?rq j))) i"
    proof (cases "j = i")
      case False
      then have "params_id (?rq j) \<noteq> i" by simp
      with assms(1) show ?thesis by (rule delete_keeps_plain)
    next
      case True
      with t assms(2) have "\<not> answered_ok ?out" by (auto simp: disturbs_def)
      with o have "fst (router_delete_id (fst er) db (?rq j)) = db"
        by (simp add: delete_unanswered)
      with assms(1) show ?thesis by simp
    qed
    with o show ?thesis by (simp add: app_step_Some)
  qed
qed

lemma run_keeps_plain:
  assumes "plain_record db i" and "undisturbed mnt i db steps"
  shows "plain_record (run mnt db steps) i"
  using assms unfolding run_def
proof (induction steps arbitrary: db)
  case Nil
  then show ?case by simp
next
  case (Cons er steps)
  from Cons.prems have "plain_record (app_step mnt db er) i"
    by (simp add: app_step_keeps_plain)
  with Cons show ?case by simp
qed

section \<open>Delete, then get\<close>

text \<open>
  Claim C7. For an identifier that resolves to an existing record, DELETE, with no
  store failure, answers 200 with the body \<open>{message: "Book deleted successfully"}\<close>.
  After it, and after any further requests none of which creates that identifier, a
  GET of the identifier whose lookup does not fail answers 404 with the body
  \<open>{message: "Book not found"}\<close>.
\<close>

theorem C7_delete_then_get:
  assumes "map_of db i = Some d"
    and "fault e CallGet = None" and "fault e CallDelete = None"
    and "list_all (\<lambda>er. \<not> creates mnt i er) steps"
    and "fault e' CallGet = None"
  shows "\<exists>db'.
           router_delete_id e db \<lparr>params_id = i, body = b, query = q\<rparr>
             = (db', Inr \<lparr>status = 200, payload = message ''Book deleted successfully''\<rparr>)
         \<and> router_get_id e' (run mnt db' steps) \<lparr>params_id = i, body = b', query = q'\<rparr>
             = (run mnt db' steps, Inr \<lparr>status = 404, payload = message ''Book not found''\<rparr>)"
proof -
  let ?db' = "AList.delete i db"
  have del: "router_delete_id e db \<lparr>params_id = i, body = b, query = q\<rparr>
             = (?db', Inr \<lparr>status = 200, payload = message ''Book deleted successfully''\<rparr>)"
    using assms(1-3)
    by (simp add: router_delete_id_def doc_get_def doc_delete_def snap_exists_def)
  have "map_of ?db' i = None" by (simp add: AList.delete_conv')
  then have "map_of (run mnt ?db' steps) i = None"
    using assms(4) by (rule run_keeps_absent)
  then have "router_get_id e' (run mnt ?db' steps) \<lparr>params_id = i, body = b', query = q'\<rparr>
             = (run mnt ?db' steps, Inr \<lparr>status = 404, payload = message ''Book not found''\<rparr>)"
    using assms(5) by (simp add: router_get_id_def doc_get_def snap_exists_def)
  with del show ?thesis by (intro exI [of _ ?db'] conjI)
qed

theorem C7_delete_then_get_witness:
  "map_of sample_store ''k1''
     = Some [(''name'', JStr ''Emma''), (''author'', JStr ''Austen''), (''description'', JStr ''novel'')]
   \<and> fault (reliable ''g'') CallGet = None
   \<and> fault (reliable ''g'') CallDelete = None
   \<and> list_all (\<lambda>er. \<not> creates mount_path ''k1'' er) sample_steps
   \<and> (\<exists>db'.
          router_delete_id (reliable ''g'') sample_store \<lparr>params_id = ''k1'', body = [], query = []\<rparr>
            = (db', Inr \<lparr>status = 200, payload = message ''Book deleted successfully''\<rparr>)
        \<and> router_get_id (reliable ''g'') (run mount_path db' sample_steps)
             \<lparr>params_id = ''k1'', body = [], query = []\<rparr>
            = (run mount_path db' sample_steps, Inr \<lparr>status = 404, payload = message ''Book not found''\<rparr>))"
proof -
  have d: "map_of sample_store ''k1''
     = Some [(''name'', JStr ''Emma''), (''author'', JStr ''Austen''), (''description'', JStr ''novel'')]"
    by (simp add: sample_store_def)
  have f: "fault (reliable ''g'') CallGet = None" "fault (reliable ''g'') CallDelete = None"
    by (simp_all add: reliable_def)
  have s: "list_all (\<lambda>er. \<not> creates mount_path ''k1'' er) sample_steps"
    by code_simp
  from C7_delete_then_get [OF d f s f(1), of "[]" "[]" "[]" "[]"] d f s
  show ?thesis by (intro conjI)
qed

section \<open>Get after create\<close>

text \<open>
  Claim C9, as amended. When a POST whose body has no \<open>id\<close> attribute has
  succeeded, it answered 201 with the identifier the store assigned. After it, and
  after any further requests none of which deletes that record or updates it with a
  body that has an \<open>id\<close> attribute, a GET of the identifier whose lookup does not fail
  answers 200 with a body whose \<open>id\<close> attribute is that identifier. A delete or
  such an update that is not answered 200 has left the record as it was, and does not
  count.
\<close>

theorem C9_get_after_post:
  assumes "router_post_root e db req = (db1, Inr r)"
    and "field (body req) ''id'' = None"
    and "undisturbed mnt (auto_id e) db1 steps"
    and "fault e' CallGet = None"
  shows "\<exists>b0 b1.
           r = \<lparr>status = 201, payload = JObj b0\<rparr>
         \<and> field b0 ''id'' = Some (JStr (auto_id e))
         \<and> router_get_id e' (run mnt db1 steps) \<lparr>params_id = auto_id e, body = bd, query = q\<rparr>
             = (run mnt db1 steps, Inr \<lparr>status = 200, payload = JObj b1\<rparr>)
         \<and> field b1 ''id'' = Some (JStr (auto_id e))"
proof -
  let ?g = "auto_id e"
  from assms(1) have db1: "db1 = db @ [(?g, body req)]" and fresh: "map_of db ?g = None"
    and r: "r = \<lparr>status = 201, payload = JObj (book_of ?g (body req))\<rparr>"
    by (auto simp: router_post_root_def doc_add_def Let_def book_of_def
        split: option.splits)
  from assms(2) have id0: "field (book_of ?g (body req)) ''id'' = Some (JStr ?g)"
    by (rule field_book_of_id_absent)
  from db1 fresh assms(2) have "plain_record db1 ?g"
    by (simp add: plain_record_def map_add_def)
  then have "plain_record (run mnt db1 steps) ?g"
    using assms(3) by (rule run_keeps_plain)
  then obtain d where d: "map_of (run mnt db1 steps) ?g = Some d" "field d ''id'' = None"
    by (auto simp: plain_record_def split: option.splits)
  from d(2) have id1: "field (book_of ?g d) ''id'' = Some (JStr ?g)"
    by (rule field_book_of_id_absent)
  have get: "router_get_id e' (run mnt db1 steps) \<lparr>params_id = ?g, body = bd, query = q\<rparr>
             = (run mnt db1 steps, Inr \<lparr>status = 200, payload = JObj (book_of ?g d)\<rparr>)"
    using assms(4) d(1) by (simp add: router_get_id_def doc_get_def snap_exists_def data_def)
  from r id0 get id1 show ?thesis
    by (intro exI [of _ "book_of ?g (body req)"] exI [of _ "book_of ?g d"] conjI)
qed

theorem C9_get_after_post_witness:
  "router_post_root (reliable ''g'') sample_store (sample_request [] [(''name'', JStr ''A'')])
     = (sample_store @ [(''g'', [(''name'', JStr ''A'')])],
        Inr \<lparr>status = 201, payload = JObj [(''id'', JStr ''g''), (''name'', JStr ''A'')]\<rparr>)
   \<and> field (body (sample_request [] [(''name'', JStr ''A'')])) ''id'' = None
   \<and> undisturbed mount_path (auto_id (reliable ''g''))
         (sample_store @ [(''g'', [(''name'', JStr ''A'')])]) sample_steps
   \<and> fault (reliable ''h'') CallGet = None
   \<and> (\<exists>b1.
         router_get_id (reliable ''h'')
            (run mount_path (sample_store @ [(''g'', [(''name'', JStr ''A'')])]) sample_steps)
            \<lparr>params_id = auto_id (reliable ''g''), body = [], query = []\<rparr>
           = (run mount_path (sample_store @ [(''g'', [(''name'', JStr ''A'')])]) sample_steps,
              Inr \<lparr>status = 200, payload = JObj b1\<rparr>)
       \<and> field b1 ''id'' = Some (JStr (auto_id (reliable ''g''))))"
proof -
  have p: "router_post_root (reliable ''g'') sample_store (sample_request [] [(''name'', JStr ''A'')])
     = (sample_store @ [(''g'', [(''name'', JStr ''A'')])],
        Inr \<lparr>status = 201, payload = JObj [(''id'', JStr ''g''), (''name'', JStr ''A'')]\<rparr>)"
    by (simp add: router_post_root_def doc_add_def reliable_def sample_request_def
        sample_store_def spread_def Let_def)
  have b: "field (body (sample_request [] [(''name'', JStr ''A'')])) ''id'' = None"
    by (simp add: sample_request_def field_def)
  have g: "auto_id (reliable ''g'') = ''g''"
    by (simp add: reliable_def)
  have "undisturbed mount_path ''g'' (sample_store @ [(''g'', [(''name'', JStr ''A'')])]) sample_steps"
    by code_simp
  then have s: "undisturbed mount_path (auto_id (reliable ''g''))
         (sample_store @ [(''g'', [(''name'', JStr ''A'')])]) sample_steps"
    by (simp only: g)
  have f: "fault (reliable ''h'') CallGet = None"
    by (simp add: reliable_def)
  from C9_get_after_post [OF p b s f, of "[]" "[]"]
  have "\<exists>b1.
         router_get_id (reliable ''h'')
            (run mount_path (sample_store @ [(''g'', [(''name'', JStr ''A'')])]) sample_steps)
            \<lparr>params_id = auto_id (reliable ''g''), body = [], query = []\<rparr>
           = (run mount_path (sample_store @ [(''g'', [(''name'', JStr ''A'')])]) sample_steps,
              Inr \<lparr>status = 200, payload = JObj b1\<rparr>)
       \<and> field b1 ''id'' = Some (JStr (auto_id (reliable ''g'')))"
    by (elim exE conjE) (intro exI conjI; assumption)
  with p b s f show ?thesis by (intro conjI)
qed

text \<open>
  Claim C9 as stated fails. A record created by POST from a body with the \<open>id\<close>
  attribute \<open>mine\<close> gets the identifier \<open>g\<close> from the store, and GET of \<open>g\<close> answers
  with the id \<open>mine\<close>. A record created by POST and then deleted is no longer found:
  GET of its identifier answers 404.
\<close>

theorem C9_counterexample:
  "router_post_root (reliable ''g'') [] (sample_request [] client_id_body)
     = ([(''g'', client_id_body)],
        Inr \<lparr>status = 201, payload = JObj [(''id'', JStr ''mine''), (''name'', JStr ''A'')]\<rparr>)
   \<and> router_get_id (reliable ''h'') [(''g'', client_id_body)] (sample_request ''g'' [])
     = ([(''g'', client_id_body)],
        Inr \<lparr>status = 200, payload = JObj [(''id'', JStr ''mine''), (''name'', JStr ''A'')]\<rparr>)
   \<and> router_post_root (reliable ''g'') [] (sample_request [] [(''name'', JStr ''A'')])
     = ([(''g'', [(''name'', JStr ''A'')])],
        Inr \<lparr>status = 201, payload = JObj [(''id'', JStr ''g''), (''name'', JStr ''A'')]\<rparr>)
   \<and> router_delete_id (reliable ''h'') [(''g'', [(''name'', JStr ''A'')])] (sample_request ''g'' [])
     = ([], Inr \<lparr>status = 200, payload = message ''Book deleted successfully''\<rparr>)
   \<and> router_get_id (reliable ''h'') [] (sample_request ''g'' [])
     = ([], Inr \<lparr>status = 404, payload = message ''Book not found''\<rparr>)"
  by (simp add: router_post_root_def router_get_id_def router_delete_id_def doc_add_def doc_get_def
      doc_delete_def snap_exists_def data_def reliable_def sample_request_def client_id_body_def
      book_of_def spread_def Let_def)

section \<open>An id attribute in the body of a create\<close>

text \<open>
  Claim C10. When the body of a POST has an \<open>id\<close> attribute (and the store does not
  fail), the \<open>id\<close> attribute of the 201 response is that of the body, not the
  generated identifier; the stored record holds that \<open>id\<close> attribute; and the
  responses built from the stored record as \<open>{id: doc.id, ...doc.data()}\<close>, by the
  get-single handler and for each record of the list, carry it as their \<open>id\<close>.
\<close>

theorem C10_client_id_shadows:
  assumes "wf_obj bd" and "field bd ''id'' = Some v"
    and "fault e CallAdd = None" and "map_of db (auto_id e) = None"
    and "fault e' CallGet = None" and "fault e' CallQuery = None"
  shows "\<exists>b0 db1 d b1.
           router_post_root e db \<lparr>params_id = p, body = bd, query = q\<rparr>
             = (db1, Inr \<lparr>status = 201, payload = JObj b0\<rparr>)
         \<and> field b0 ''id'' = Some v
         \<and> map_of db1 (auto_id e) = Some d
         \<and> field d ''id'' = Some v
         \<and> router_get_id e' db1 \<lparr>params_id = auto_id e, body = bd', query = q'\<rparr>
             = (db1, Inr \<lparr>status = 200, payload = JObj b1\<rparr>)
         \<and> field b1 ''id'' = Some v
         \<and> router_get_root e' db1 \<lparr>params_id = p', body = bd', query = q'\<rparr>
             = (db1, Inr \<lparr>status = 200,
                         payload = JArr (map (\<lambda>(i, d). JObj (book_of i d))
                                          (order_by_limit ''name'' 20 db1))\<rparr>)
         \<and> field (book_of (auto_id e) d) ''id'' = Some v"
proof -
  let ?g = "auto_id e"
  let ?db1 = "db @ [(?g, bd)]"
  have sh: "field (book_of ?g bd) ''id'' = Some v"
    using assms(1,2) by (simp add: book_of_def field_spread)
  have post: "router_post_root e db \<lparr>params_id = p, body = bd, query = q\<rparr>
             = (?db1, Inr \<lparr>status = 201, payload = JObj (book_of ?g bd)\<rparr>)"
    using assms(3,4) by (simp add: router_post_root_def doc_add_def Let_def book_of_def)
  have st: "map_of ?db1 ?g = Some bd"
    using assms(4) by (simp add: map_add_def)
  have get: "router_get_id e' ?db1 \<lparr>params_id = ?g, body = bd', query = q'\<rparr>
             = (?db1, Inr \<lparr>status = 200, payload = JObj (book_of ?g bd)\<rparr>)"
    using assms(5) st by (simp add: router_get_id_def doc_get_def Let_def snap_exists_def data_def)
  have lst: "router_get_root e' ?db1 \<lparr>params_id = p', body = bd', query = q'\<rparr>
             = (?db1, Inr \<lparr>status = 200,
                         payload = JArr (map (\<lambda>(i, d). JObj (book_of i d))
                                          (order_by_limit ''name'' 20 ?db1))\<rparr>)"
    using assms(6) by (simp add: router_get_root_def query_get_def)
  from post sh st assms(2) get lst show ?thesis
    by (intro exI [of _ "book_of ?g bd"] exI [of _ ?db1] exI [of _ bd] conjI)
qed

theorem C10_client_id_shadows_witness:
  "wf_obj client_id_body
   \<and> field client_id_body ''id'' = Some (JStr ''mine'')
   \<and> fault (reliable ''g'') CallAdd = None
   \<and> map_of sample_store (auto_id (reliable ''g'')) = None
   \<and> fault (reliable ''h'') CallGet = None
   \<and> fault (reliable ''h'') CallQuery = None
   \<and> (\<exists>b0 db1 d b1.
           router_post_root (reliable ''g'') sample_store \<lparr>params_id = [], body = client_id_body, query = []\<rparr>
             = (db1, Inr \<lparr>status = 201, payload = JObj b0\<rparr>)
         \<and> field b0 ''id'' = Some (JStr ''mine'')
         \<and> map_of db1 (auto_id (reliable ''g'')) = Some d
         \<and> field d ''id'' = Some (JStr ''mine'')
         \<and> router_get_id (reliable ''h'') db1 \<lparr>params_id = auto_id (reliable ''g''), body = [], query = []\<rparr>
             = (db1, Inr \<lparr>status = 200, payload = JObj b1\<rparr>)
         \<and> field b1 ''id'' = Some (JStr ''mine''))"
proof -
  have w: "wf_obj client_id_body"
    by (simp add: wf_obj_def client_id_body_def)
  have i: "field client_id_body ''id'' = Some (JStr ''mine'')"
    by (simp add: field_def client_id_body_def)
  have a: "fault (reliable ''g'') CallAdd = None"
    by (simp add: reliable_def)
  have n: "map_of sample_store (auto_id (reliable ''g'')) = None"
    by (simp add: reliable_def sample_store_def)
  have f: "fault (reliable ''h'') CallGet = None" "fault (reliable ''h'') CallQuery = None"
    by (simp_all add: reliable_def)
  from C10_client_id_shadows [OF w i a n f, of "[]" "[]" "[]" "[]" "[]"]
  have "\<exists>b0 db1 d b1.
           router_post_root (reliable ''g'') sample_store \<lparr>params_id = [], body = client_id_body, query = []\<rparr>
             = (db1, Inr \<lparr>status = 201, payload = JObj b0\<rparr>)
         \<and> field b0 ''id'' = Some (JStr ''mine'')
         \<and> map_of db1 (auto_id (reliable ''g'')) = Some d
         \<and> field d ''id'' = Some (JStr ''mine'')
         \<and> router_get_id (reliable ''h'') db1 \<lparr>params_id = auto_id (reliable ''g''), body = [], query = []\<rparr>
             = (db1, Inr \<lparr>status = 200, payload = JObj b1\<rparr>)
         \<and> field b1 ''id'' = Some (JStr ''mine'')"
    by (elim exE conjE) (intro exI conjI; assumption)
  with w i a n f show ?thesis by (intro conjI)
qed

section \<open>The list ignores the request\<close>

lemma length_with_field:
  "length (with_field f db) = length (filter (\<lambda>(i, d). field d f \<noteq> None) db)"
proof -
  have h: "(\<lambda>x. (case x of (i, d) \<Rightarrow>
                 case field d f of None \<Rightarrow> None | Some v \<Rightarrow> Some (value_key v, i, d)) \<noteq> None)
        = (\<lambda>(i, d). field d f \<noteq> None)"
    by (auto simp: fun_eq_iff split: option.splits)
  show ?thesis
    unfolding with_field_def List.map_filter_def length_map by (simp only: h)
qed

lemma length_order_by_limit:
  "length (order_by_limit f n db) = min n (length (filter (\<lambda>(i, d). field d f \<noteq> None) db))"
  by (simp add: order_by_limit_def length_with_field min.commute)

lemma sorted_listed_names:
  assumes "list_all wf_obj (map snd db)"
  shows "sorted (map name_key (map (\<lambda>(i, d). book_of i d) (order_by_limit ''name'' 20 db)))"
proof -
  let ?S = "sort_key (\<lambda>(k, i, d). (k, i)) (with_field ''name'' db)"
  have keys: "map name_key (map (\<lambda>(i, d). book_of i d) (order_by_limit ''name'' 20 db))
                = map fst (take 20 ?S)"
    using order_by_limit_props(3) [OF assms, of "''name''" 20]
    by (simp add: name_key_def comp_def case_prod_unfold)
  have "sorted (map (\<lambda>(k, i, d). (k, i)) ?S)" by (rule sorted_sort_key)
  then have "sorted (map fst ?S)" by (rule sorted_fst_of_pairs)
  then have "sorted (take 20 (map fst ?S))" by (rule sorted_wrt_take)
  then show ?thesis by (simp only: keys take_map)
qed

lemma get_ignores_body_and_query:
  "app mnt e db \<lparr>http_verb = GET, url_path = p, json_body = b, url_query = q\<rparr>
     = app mnt e db \<lparr>http_verb = GET, url_path = p, json_body = b', url_query = q'\<rparr>"
proof (cases "strip_mount mnt p")
  case None
  then show ?thesis by (simp add: app_def dispatch_def)
next
  case (Some p')
  then show ?thesis
    by (cases "match_path Root p'"; cases "match_path IdParam p'")
       (simp_all add: app_def dispatch_def route_loop_router router_get_root_def
          router_get_id_def del: match_path.simps)
qed

lemma list_route:
  assumes "root_path mnt p"
  shows "app mnt e db \<lparr>http_verb = GET, url_path = p, json_body = b, url_query = q\<rparr>
           = Some (router_get_root e db req)"
proof -
  from assms obtain p' i where "strip_mount mnt p = Some p'" "match_path Root p' = Params i"
    by (auto simp: root_path_def split: option.splits matched.splits simp del: match_path.simps)
  then show ?thesis
    by (simp add: app_def dispatch_def route_loop_router router_get_root_def
        del: match_path.simps)
qed

text \<open>
  Claim C5. The order field and the limit of the list are the constants \<open>name\<close> and
  20 of the handler, and the handler does not read the request. Two list requests on
  the same store, under the same behaviour of the store, get the same outcome,
  whatever their parameters, query string (\<open>orderBy\<close>, \<open>limit\<close>) or body, at the
  handler and through the application; a GET on the path of the list is answered by
  the list handler whatever its query string. With no store failure that outcome is
  the records that have a name, in ascending order of the name, the first 20 of
  them: as many as there are when fewer than 20 have a name, and 20 otherwise.
\<close>

theorem C5_list_ignores_request:
  "router_get_root e db req = router_get_root e db req'
   \<and> app mnt e db \<lparr>http_verb = GET, url_path = p, json_body = b, url_query = q\<rparr>
       = app mnt e db \<lparr>http_verb = GET, url_path = p, json_body = b', url_query = q'\<rparr>
   \<and> (root_path mnt p \<longrightarrow>
         app mnt e db \<lparr>http_verb = GET, url_path = p, json_body = b, url_query = q\<rparr>
           = Some (router_get_root e db req))
   \<and> (fault e CallQuery = None \<and> wf_store db \<longrightarrow>
         (\<exists>books.
            router_get_root e db req
              = (db, Inr \<lparr>status = 200, payload = JArr (map JObj books)\<rparr>)
          \<and> router_get_root e db req'
              = (db, Inr \<lparr>status = 200, payload = JArr (map JObj books)\<rparr>)
          \<and> length books = min 20 (length (filter (\<lambda>(i, d). field d ''name'' \<noteq> None) db))
          \<and> sorted (map name_key books)))"
proof (intro conjI impI)
  show "router_get_root e db req = router_get_root e db req'"
    by (simp add: router_get_root_def)
  show "app mnt e db \<lparr>http_verb = GET, url_path = p, json_body = b, url_query = q\<rparr>
       = app mnt e db \<lparr>http_verb = GET, url_path = p, json_body = b', url_query = q'\<rparr>"
    by (rule get_ignores_body_and_query)
next
  assume "root_path mnt p"
  then show "app mnt e db \<lparr>http_verb = GET, url_path = p, json_body = b, url_query = q\<rparr>
           = Some (router_get_root e db req)"
    by (rule list_route)
next
  assume a: "fault e CallQuery = None \<and> wf_store db"
  let ?books = "map (\<lambda>(i, d). book_of i d) (order_by_limit ''name'' 20 db)"
  from a have wf: "list_all wf_obj (map snd db)" by (simp add: wf_store_def)
  have out: "router_get_root e db r
               = (db, Inr \<lparr>status = 200, payload = JArr (map JObj ?books)\<rparr>)" for r
    using a by (simp add: router_get_root_def query_get_def comp_def case_prod_unfold)
  have len: "length ?books = min 20 (length (filter (\<lambda>(i, d). field d ''name'' \<noteq> None) db))"
    by (simp add: length_order_by_limit)
  have srt: "sorted (map name_key ?books)"
    using wf by (rule sorted_listed_names)
  from out [of req] out [of req'] len srt
  show "\<exists>books.
            router_get_root e db req
              = (db, Inr \<lparr>status = 200, payload = JArr (map JObj books)\<rparr>)
          \<and> router_get_root e db req'
              = (db, Inr \<lparr>status = 200, payload = JArr (map JObj books)\<rparr>)
          \<and> length books = min 20 (length (filter (\<lambda>(i, d). field d ''name'' \<noteq> None) db))
          \<and> sorted (map name_key books)"
    by (intro exI [of _ ?books] conjI)
qed

theorem C5_list_ignores_request_witness:
  "root_path mount_path ''/books''
   \<and> fault (reliable ''g'') CallQuery = None
   \<and> wf_store large_store
   \<and> length (filter (\<lambda>(i, d). field d ''name'' \<noteq> None) large_store) = 21
   \<and> app mount_path (reliable ''g'') large_store
        \<lparr>http_verb = GET, url_path = ''/books'', json_body = [],
         url_query = [(''orderBy'', ''author''), (''limit'', ''5'')]\<rparr>
       = Some (router_get_root (reliable ''g'') large_store (sample_request [] []))
   \<and> (\<exists>books.
          router_get_root (reliable ''g'') large_store (sample_request [] [])
            = (large_store, Inr \<lparr>status = 200, payload = JArr (map JObj books)\<rparr>)
        \<and> length books = 20
        \<and> sorted (map name_key books))"
proof -
  have r: "root_path mount_path ''/books''"
    by code_simp
  have f: "fault (reliable ''g'') CallQuery = None"
    by (simp add: reliable_def)
  have w: "wf_store large_store"
    by code_simp
  have n: "length (filter (\<lambda>(i, d). field d ''name'' \<noteq> None) large_store) = 21"
    by code_simp
  note c5 = C5_list_ignores_request [of "reliable ''g''" large_store "sample_request [] []"
      "sample_request [] []" mount_path "''/books''" "[]"
      "[(''orderBy'', ''author''), (''limit'', ''5'')]" "[]" "[]"]
  from c5 r have a: "app mount_path (reliable ''g'') large_store
        \<lparr>http_verb = GET, url_path = ''/books'', json_body = [],
         url_query = [(''orderBy'', ''author''), (''limit'', ''5'')]\<rparr>
       = Some (router_get_root (reliable ''g'') large_store (sample_request [] []))"
    by (elim conjE) (erule mp)
  from c5 f w have "\<exists>books.
          router_get_root (reliable ''g'') large_store (sample_request [] [])
            = (large_store, Inr \<lparr>status = 200, payload = JArr (map JObj books)\<rparr>)
        \<and> router_get_root (reliable ''g'') large_store (sample_request [] [])
            = (large_store, Inr \<lparr>status = 200, payload = JArr (map JObj books)\<rparr>)
        \<and> length books
            = min 20 (length (filter (\<lambda>(i, d). field d ''name'' \<noteq> None) large_store))
        \<and> sorted (map name_key books)"
    by blast
  then have "\<exists>books.
          router_get_root (reliable ''g'') large_store (sample_request [] [])
            = (large_store, Inr \<lparr>status = 200, payload = JArr (map JObj books)\<rparr>)
        \<and> length books = 20
        \<and> sorted (map name_key books)"
    unfolding n by (elim exE conjE) (intro exI conjI; simp)
  with r f w n a show ?thesis by (intro conjI)
qed

section \<open>The paths of the routes\<close>





section \<open>Well-formed stores stay well formed\<close>

text \<open>
  The handlers keep the store well formed when the bodies of the requests are: the
  hypothesis of well-formedness holds of every store the application reaches from a
  well-formed one.
\<close>

lemma wf_post:
  assumes "wf_store db" and "wf_obj (body req)"
  shows "wf_store (fst (router_post_root e db req))"
  using assms
  by (auto simp: wf_store_def router_post_root_def doc_add_def Let_def map_of_eq_None_iff
      split: option.splits)

lemma wf_update_entry:
  assumes "wf_store db" and "wf_obj d"
  shows "wf_store (AList.update i d db)"
proof -
  from assms have "list_all wf_obj (map snd (AList.update i d db))"
    unfolding wf_store_def by (induction db) auto
  with assms(1) show ?thesis
    by (simp add: wf_store_def AList.distinct_update)
qed

lemma wf_lookup:
  assumes "wf_store db" and "map_of db i = Some d"
  shows "wf_obj d"
proof -
  from assms(2) have "(i, d) \<in> set db" by (rule map_of_SomeD)
  with assms(1) show ?thesis by (auto simp: wf_store_def list_all_iff)
qed

lemma wf_put:
  assumes "wf_store db"
  shows "wf_store (fst (router_put_id e db req))"
  using assms
  by (auto simp: router_put_id_def doc_get_def doc_update_def snap_exists_def Let_def
      wf_update_entry wf_spread wf_lookup split: option.splits)

lemma wf_delete_entry:
  assumes "wf_store db"
  shows "wf_store (AList.delete i db)"
proof -
  from assms have "list_all wf_obj (map snd (AList.delete i db))"
    unfolding wf_store_def by (induction db) auto
  with assms show ?thesis
    by (simp add: wf_store_def AList.distinct_delete)
qed

lemma wf_delete:
  assumes "wf_store db"
  shows "wf_store (fst (router_delete_id e db req))"
  using assms
  by (auto simp: router_delete_id_def doc_get_def doc_delete_def snap_exists_def Let_def
      wf_delete_entry split: option.splits)

lemma wf_app_step:
  assumes "wf_store db" and "wf_obj (json_body (snd er))"
  shows "wf_store (app_step mnt db er)"
proof -
  let ?rq = "\<lambda>j. \<lparr>params_id = j, body = json_body (snd er), query = url_query (snd er)\<rparr>"
  let ?out = "app mnt (fst er) db (snd er)"
  from app_cases [of mnt "fst er" db "snd er"] show ?thesis
  proof (elim disjE exE conjE)
    assume "?out = None"
    with assms(1) show ?thesis by (simp add: app_step_def)
  next
    fix j assume "?out = Some (router_get_root (fst er) db (?rq j))"
    with assms(1) reads_keep_store(1) [of "fst er" db "?rq j"] show ?thesis
      by (simp add: app_step_Some)
  next
    fix j assume "?out = Some (router_get_id (fst er) db (?rq j))"
    with assms(1) reads_keep_store(2) [of "fst er" db "?rq j"] show ?thesis
      by (simp add: app_step_Some)
  next
    fix j assume o: "?out = Some (router_post_root (fst er) db (?rq j))"
    from assms have "wf_store (fst (router_post_root (fst er) db (?rq j)))"
      by (simp add: wf_post)
    with o show ?thesis by (simp add: app_step_Some)
  next
    fix j assume o: "?out = Some (router_put_id (fst er) db (?rq j))"
    from assms(1) have "wf_store (fst (router_put_id (fst er) db (?rq j)))"
      by (rule wf_put)
    with o show ?thesis by (simp add: app_step_Some)
  next
    fix j assume o: "?out = Some (router_delete_id (fst er) db (?rq j))"
    from assms(1) have "wf_store (fst (router_delete_id (fst er) db (?rq j)))"
      by (rule wf_delete)
    with o show ?thesis by (simp add: app_step_Some)
  qed
qed

lemma wf_run:
  assumes "wf_store db" and "list_all (\<lambda>er. wf_obj (json_body (snd er))) steps"
  shows "wf_store (run mnt db steps)"
  using assms unfolding run_def
  by (induction steps arbitrary: db) (simp_all add: wf_app_step)

end
